theory Spec2Isabelle
  imports Complex_Main "HOL-Library.Sublist"
begin

section \<open>JavaScript values and strings\<close>

text \<open>
  The spreadsheet job runner of \<^verbatim>\<open>src/fileProcessor.js\<close> and \<^verbatim>\<open>src/server.js\<close>.

  Modelling conventions.
  \<^item> A JavaScript string is a \<^typ>\<open>string\<close>: a character is a code unit below 256, read as
    the Latin-1 character of that code. White space and letter case are JavaScript's on
    these characters; strings with other code units are outside the type.
  \<^item> A value read from a cell, produced by \<^verbatim>\<open>JSON.parse\<close> or read from an object is a
    \<^verbatim>\<open>jsval\<close>. A number is an integer here: the pipeline only ever asks whether a number is
    zero. An object is the list of its own properties. \<open>JNative\<close> stands for a built-in
    object or function of the engine, such as \<^verbatim>\<open>Object.prototype\<close> or one of its methods;
    neither \<^verbatim>\<open>JSON.parse\<close> nor a cell yields one.
  \<^item> The translation cache (\<^verbatim>\<open>translationCache = {}\<close>) is a plain object: own properties
    and a prototype, with property reads and writes going through the prototype chain.
  \<^item> A worksheet, addressed by cell references and \<^verbatim>\<open>!ref\<close>, and the sheets of a workbook
    are finite maps.
  \<^item> The progress percentage is computed as the code computes it, on doubles: see
    \<open>progress_of\<close>.
  \<^item> The collaborators (job store, object storage, spreadsheet codec, language model,
    \<^verbatim>\<open>JSON.parse\<close>) are fields of an environment record; a call that throws or rejects
    yields \<open>Inl\<close>.
\<close>

datatype jsval =
    JUndefined
  | JNull
  | JBool bool
  | JNum int
  | JStr string
  | JArr "jsval list"
  | JObj "(string \<times> jsval) list"
  | JNative string

text \<open>Truthiness, as \<^verbatim>\<open>if (x)\<close>, \<^verbatim>\<open>x || y\<close> and \<^verbatim>\<open>!x\<close> read it.\<close>

fun truthy :: "jsval \<Rightarrow> bool" where
  "truthy JUndefined = False"
| "truthy JNull = False"
| "truthy (JBool b) = b"
| "truthy (JNum n) = (n \<noteq> 0)"
| "truthy (JStr s) = (s \<noteq> [])"
| "truthy (JArr xs) = True"
| "truthy (JObj kvs) = True"
| "truthy (JNative n) = True"

text \<open>\<^verbatim>\<open>a || b\<close>.\<close>

definition js_or :: "jsval \<Rightarrow> jsval \<Rightarrow> jsval" where
  "js_or a b = (if truthy a then a else b)"

text \<open>
  White space as \<^verbatim>\<open>String.prototype.trim\<close> and the regular expression class \<^verbatim>\<open>\s\<close> see it:
  tab, line feed, vertical tab, form feed, carriage return, space and the no-break space
  U+00A0.
\<close>

definition is_ws :: "char \<Rightarrow> bool" where
  "is_ws c \<longleftrightarrow>
     c = CHR 0x09 \<or> c = CHR 0x0A \<or> c = CHR 0x0B \<or> c = CHR 0x0C \<or> c = CHR 0x0D \<or> c = CHR 0x20 \<or>
     c = CHR 0xA0"

definition trim :: "string \<Rightarrow> string" where
  "trim s = rev (dropWhile is_ws (rev (dropWhile is_ws s)))"

text \<open>
  \<^verbatim>\<open>String.prototype.toLowerCase\<close>: the letters A to Z and the Latin-1 capitals U+00C0 to
  U+00DE, the multiplication sign U+00D7 apart, move up by 32.
\<close>

definition lower_char :: "char \<Rightarrow> char" where
  "lower_char c =
     (let n = (of_char c :: nat)
      in if (65 \<le> n \<and> n \<le> 90) \<or> (192 \<le> n \<and> n \<le> 222 \<and> n \<noteq> 215) then char_of (n + 32) else c)"

definition toLowerCase :: "string \<Rightarrow> string" where
  "toLowerCase s = map lower_char s"

text \<open>A word character of a regular expression: \<^verbatim>\<open>[A-Za-z0-9_]\<close>.\<close>

definition is_word :: "char \<Rightarrow> bool" where
  "is_word c =
     (let n = (of_char c :: nat)
      in (48 \<le> n \<and> n \<le> 57) \<or> (65 \<le> n \<and> n \<le> 90) \<or> n = 95 \<or> (97 \<le> n \<and> n \<le> 122))"

section \<open>Worksheets\<close>

text \<open>
  A cell object \<^verbatim>\<open>{ t, v }\<close>. A worksheet maps a cell address, here the pair
  \<open>(column, row)\<close> that \<^verbatim>\<open>XLSX.utils.encode_cell\<close> encodes, to its cell; \<open>ref\<close> is the decoded
  \<^verbatim>\<open>!ref\<close> range, \<open>None\<close> when the sheet declares none.
\<close>

record cell =
  t :: string
  v :: jsval

record range =
  s_c :: nat
  s_r :: nat
  e_c :: nat
  e_r :: nat

record worksheet =
  ref :: "range option"
  cells :: "nat \<times> nat \<rightharpoonup> cell"

record workbook =
  SheetNames :: "string list"
  Sheets :: "string \<rightharpoonup> worksheet"

definition getCell :: "worksheet \<Rightarrow> nat \<Rightarrow> nat \<Rightarrow> cell option" where
  "getCell ws cIndex rIndex = cells ws (cIndex, rIndex)"

section \<open>Column resolution\<close>

text \<open>A candidate is a string or a regular expression; the latter is its \<^verbatim>\<open>test\<close> predicate.\<close>

datatype candidate = CStr string | CRe "string \<Rightarrow> bool"

datatype want = WStr string | WRe "string \<Rightarrow> bool"

record header =
  h_text :: string
  h_lower :: string
  h_col :: nat

text \<open>The header of one column of the header row, if the cell holds a non-empty string.\<close>

definition header_at :: "worksheet \<Rightarrow> nat \<Rightarrow> nat \<Rightarrow> header list" where
  "header_at ws headerRow c =
     (case getCell ws c headerRow of
        None \<Rightarrow> []
      | Some cl \<Rightarrow>
          (case v cl of
             JStr s \<Rightarrow>
               (let raw = trim s
                in if raw \<noteq> [] then [\<lparr>h_text = raw, h_lower = toLowerCase raw, h_col = c\<rparr>] else [])
           | _ \<Rightarrow> []))"

definition collect_headers :: "worksheet \<Rightarrow> range \<Rightarrow> header list" where
  "collect_headers ws rg = concat (map (header_at ws (s_r rg)) [s_c rg ..< Suc (e_c rg)])"

fun norm :: "candidate \<Rightarrow> want" where
  "norm (CStr x) = WStr (toLowerCase x)"
| "norm (CRe r) = WRe r"

text \<open>Pass 1: exact case-insensitive matches. Pass 2: regular expressions.\<close>

fun pass1 :: "header list \<Rightarrow> want list \<Rightarrow> nat option" where
  "pass1 hs [] = None"
| "pass1 hs (WStr x # ws) =
     (case find (\<lambda>h. h_lower h = x) hs of
        Some hit \<Rightarrow> Some (h_col hit)
      | None \<Rightarrow> pass1 hs ws)"
| "pass1 hs (WRe r # ws) = pass1 hs ws"

fun pass2 :: "header list \<Rightarrow> want list \<Rightarrow> nat option" where
  "pass2 hs [] = None"
| "pass2 hs (WRe r # ws) =
     (case find (\<lambda>h. r (h_text h)) hs of
        Some hit \<Rightarrow> Some (h_col hit)
      | None \<Rightarrow> pass2 hs ws)"
| "pass2 hs (WStr x # ws) = pass2 hs ws"

definition findColumnByHeader :: "worksheet \<Rightarrow> candidate list \<Rightarrow> nat option" where
  "findColumnByHeader ws candidates =
     (case ref ws of
        None \<Rightarrow> None
      | Some rg \<Rightarrow>
          (let headers = collect_headers ws rg; wants = map norm candidates
           in case pass1 headers wants of
                Some c \<Rightarrow> Some c
              | None \<Rightarrow> pass2 headers wants))"

text \<open>
  The regular expression \<^verbatim>\<open>/^Translated string\b/i\<close>. Without the \<^verbatim>\<open>u\<close> flag a character
  outside ASCII never matches an ASCII letter, and the word characters are the ASCII ones.
\<close>

definition ascii_lower :: "char \<Rightarrow> char" where
  "ascii_lower c =
     (let n = (of_char c :: nat) in if 65 \<le> n \<and> n \<le> 90 then char_of (n + 32) else c)"

definition re_translated_string :: "string \<Rightarrow> bool" where
  "re_translated_string s \<longleftrightarrow>
     map ascii_lower (take 17 s) = ''translated string'' \<and>
     (case drop 17 s of [] \<Rightarrow> True | c # _ \<Rightarrow> \<not> is_word c)"

definition source_candidates :: "candidate list" where
  "source_candidates = [CStr ''Field Value'', CStr ''Base'', CStr ''Source'', CStr ''Text'']"

definition target_candidates :: "candidate list" where
  "target_candidates =
     [CRe re_translated_string, CStr ''Translation'', CStr ''Translated'', CStr ''Norsk'']"

record columns =
  sourceColIndex :: nat
  targetColIndex :: nat

definition resolveColumnsForSingleSheet :: "worksheet \<Rightarrow> columns" where
  "resolveColumnsForSingleSheet ws =
     \<lparr>sourceColIndex = (case findColumnByHeader ws source_candidates of Some c \<Rightarrow> c | None \<Rightarrow> 1),
      targetColIndex = (case findColumnByHeader ws target_candidates of Some c \<Rightarrow> c | None \<Rightarrow> 3)\<rparr>"

section \<open>Row extraction\<close>

text \<open>An entry of \<^verbatim>\<open>rowsToTranslate\<close>; \<open>translated\<close> is \<^verbatim>\<open>undefined\<close> until step 3 assigns it.\<close>

record row_item =
  sheetName :: string
  row :: nat
  original :: string
  item_targetColIndex :: nat
  translated :: jsval

definition row_at :: "worksheet \<Rightarrow> string \<Rightarrow> nat \<Rightarrow> nat \<Rightarrow> nat \<Rightarrow> row_item list" where
  "row_at ws name src tgt r =
     (case getCell ws src r of
        None \<Rightarrow> []
      | Some cl \<Rightarrow>
          (case v cl of
             JStr s \<Rightarrow>
               (if t cl = ''s'' \<and> trim s \<noteq> []
                then [\<lparr>sheetName = name, row = r, original = trim s,
                       item_targetColIndex = tgt, translated = JUndefined\<rparr>]
                else [])
           | _ \<Rightarrow> []))"

definition collect_rows :: "worksheet \<Rightarrow> range \<Rightarrow> string \<Rightarrow> nat \<Rightarrow> nat \<Rightarrow> row_item list" where
  "collect_rows ws rg name src tgt =
     concat (map (row_at ws name src tgt) [Suc (s_r rg) ..< Suc (e_r rg)])"

text \<open>\<^verbatim>\<open>uniqueTexts.add\<close> on a \<^verbatim>\<open>Set\<close>, which keeps insertion order, and \<^verbatim>\<open>Array.from\<close>.\<close>

definition set_add :: "string list \<Rightarrow> string \<Rightarrow> string list" where
  "set_add acc x = (if x \<in> set acc then acc else acc @ [x])"

definition unique_texts :: "row_item list \<Rightarrow> string list" where
  "unique_texts rows = foldl set_add [] (map original rows)"

section \<open>Batch translation\<close>

datatype js_error = Error string | TypeError

text \<open>The index of the first occurrence of a pattern.\<close>

fun find_sub :: "string \<Rightarrow> string \<Rightarrow> nat option" where
  "find_sub pat [] = (if pat = [] then Some 0 else None)"
| "find_sub pat (c # cs) =
     (if take (length pat) (c # cs) = pat then Some 0 else map_option Suc (find_sub pat cs))"

text \<open>\<^verbatim>\<open>rawOutput.replace(/<think>[\s\S]*?<\/think>/, "")\<close>: the first reasoning block is removed.\<close>

definition strip_think :: "string \<Rightarrow> string" where
  "strip_think s =
     (case find_sub ''<think>'' s of
        None \<Rightarrow> s
      | Some i \<Rightarrow>
          (case find_sub ''</think>'' (drop (i + 7) s) of
             None \<Rightarrow> s
           | Some j \<Rightarrow> take i s @ drop (i + 7 + j + 8) s))"

text \<open>\<^verbatim>\<open>cleanedOutput.match(/\[[\s\S]*\]/)\<close>: from the first opening bracket to the last closing one.\<close>

definition match_array :: "string \<Rightarrow> string option" where
  "match_array s =
     (case dropWhile (\<lambda>c. c \<noteq> CHR ''['') s of
        [] \<Rightarrow> None
      | b # r \<Rightarrow>
          (if CHR '']'' \<in> set r
           then Some (b # rev (dropWhile (\<lambda>c. c \<noteq> CHR '']'') (rev r)))
           else None))"

text \<open>\<^verbatim>\<open>jsonString.replace(/,\s*([}\]])/g, "$1")\<close>.\<close>

function strip_trailing_commas :: "string \<Rightarrow> string" where
  "strip_trailing_commas [] = []"
| "strip_trailing_commas (c # cs) =
     (if c = CHR '','' \<and> dropWhile is_ws cs \<noteq> [] \<and>
         (hd (dropWhile is_ws cs) = CHR ''}'' \<or> hd (dropWhile is_ws cs) = CHR '']'')
      then hd (dropWhile is_ws cs) # strip_trailing_commas (tl (dropWhile is_ws cs))
      else c # strip_trailing_commas cs)"
  by pat_completeness auto
termination
proof (relation "measure length")
  fix c :: char and cs :: string
  assume "c = CHR '','' \<and> dropWhile is_ws cs \<noteq> [] \<and>
     (hd (dropWhile is_ws cs) = CHR ''}'' \<or> hd (dropWhile is_ws cs) = CHR '']'')"
  have "length (tl (dropWhile is_ws cs)) \<le> length cs"
    using length_dropWhile_le [of is_ws cs] by simp
  then show "(tl (dropWhile is_ws cs), c # cs) \<in> measure length" by simp
qed simp_all

text \<open>
  The collaborators. \<open>model_reply k prompt\<close> is what the chat session answers to the
  \<open>k\<close>-th request of the job (\<open>Inl\<close> when the call throws); \<open>json_parse\<close> is \<^verbatim>\<open>JSON.parse\<close>
  (\<open>Inl\<close> the message of the exception it throws); \<open>array_prototype_names\<close> are the names
  of the properties of \<^verbatim>\<open>Array.prototype\<close> in the running engine, which vary with its
  version.
\<close>

record env =
  job_select :: "string \<Rightarrow> js_error + string option"
  download :: "string \<Rightarrow> js_error + workbook"
  model_reply :: "nat \<Rightarrow> string \<Rightarrow> js_error + string"
  json_parse :: "string \<Rightarrow> string + jsval"
  array_prototype_names :: "string list"
  save :: "string \<Rightarrow> workbook \<Rightarrow> js_error option"
  getSignedUrl :: "string \<Rightarrow> js_error + string"

definition translateBatch :: "env \<Rightarrow> nat \<Rightarrow> string \<Rightarrow> js_error + jsval list" where
  "translateBatch en k prompt =
     (case model_reply en k prompt of
        Inl e \<Rightarrow> Inl e
      | Inr rawOutput \<Rightarrow>
          (let cleanedOutput = trim (strip_think rawOutput)
           in case match_array cleanedOutput of
                None \<Rightarrow> Inl (Error (''Failed to extract JSON array from output: '' @ cleanedOutput))
              | Some m \<Rightarrow>
                  (case json_parse en (strip_trailing_commas m) of
                     Inl msg \<Rightarrow> Inl (Error (''Failed to parse JSON output: '' @ msg))
                   | Inr jsonOutput \<Rightarrow>
                       (case jsonOutput of
                          JArr xs \<Rightarrow> Inr xs
                        | _ \<Rightarrow> Inl (Error ''JSON output is not an array'')))))"

section \<open>Progress arithmetic\<close>

text \<open>
  \<^verbatim>\<open>Math.round((processedUnique / uniqueList.length) * 100)\<close> is computed on IEEE 754
  doubles. \<open>fl\<close> rounds a rational to the nearest double, ties to even (53 significant
  bits; exponent range not limited, which the values of this program never leave).
\<close>

definition round_even :: "rat \<Rightarrow> int" where
  "round_even q =
     (let f = \<lfloor>q\<rfloor>; d = q - of_int f
      in if d < 1 / 2 then f else if 1 / 2 < d then f + 1 else if even f then f else f + 1)"

function fl_up :: "rat \<Rightarrow> rat" where
  "fl_up x = (if 0 < x \<and> x < 2 ^ 52 then fl_up (2 * x) / 2 else of_int (round_even x))"
  by pat_completeness auto
termination
proof (relation "measure (\<lambda>x. nat \<lfloor>2 ^ 52 / x\<rfloor>)")
  fix x :: rat
  assume a: "0 < x \<and> x < 2 ^ 52"
  define y where "y = 2 ^ 52 / x"
  from a have "1 \<le> y" by (simp add: y_def field_simps)
  then have one: "1 \<le> \<lfloor>y\<rfloor>" by simp
  then have "(1 :: rat) \<le> of_int \<lfloor>y\<rfloor>" by linarith
  moreover have "y < of_int \<lfloor>y\<rfloor> + 1" by linarith
  ultimately have "y / 2 < of_int \<lfloor>y\<rfloor>" by linarith
  then have "\<lfloor>y / 2\<rfloor> < \<lfloor>y\<rfloor>" by (simp add: floor_less_iff)
  moreover have "2 ^ 52 / (2 * x) = y / 2" by (simp add: y_def)
  ultimately show "(2 * x, x) \<in> measure (\<lambda>x. nat \<lfloor>2 ^ 52 / x\<rfloor>)"
    using one by (simp add: y_def)
qed simp

function fl_down :: "rat \<Rightarrow> rat" where
  "fl_down x = (if 2 ^ 53 \<le> x then 2 * fl_down (x / 2) else of_int (round_even x))"
  by pat_completeness auto
termination
proof (relation "measure (\<lambda>x. nat \<lfloor>x\<rfloor>)")
  fix x :: rat
  assume a: "2 ^ 53 \<le> x"
  moreover have "(1 :: rat) \<le> 2 ^ 53" by simp
  ultimately have "(1 :: rat) \<le> x" by linarith
  then have one: "1 \<le> \<lfloor>x\<rfloor>" by simp
  then have "(1 :: rat) \<le> of_int \<lfloor>x\<rfloor>" by linarith
  moreover have "x < of_int \<lfloor>x\<rfloor> + 1" by linarith
  ultimately have "x / 2 < of_int \<lfloor>x\<rfloor>" by linarith
  then have "\<lfloor>x / 2\<rfloor> < \<lfloor>x\<rfloor>" by (simp add: floor_less_iff)
  then show "(x / 2, x) \<in> measure (\<lambda>x. nat \<lfloor>x\<rfloor>)"
    using one by simp
qed simp

definition fl :: "rat \<Rightarrow> rat" where
  "fl x =
     (if x = 0 then 0
      else if x < 0 then - (if - x < 2 ^ 52 then fl_up (- x) else fl_down (- x))
      else if x < 2 ^ 52 then fl_up x else fl_down x)"

text \<open>\<^verbatim>\<open>Math.round\<close>: the nearest integer, a tie going up.\<close>

definition math_round :: "rat \<Rightarrow> int" where
  "math_round x = \<lfloor>x + 1 / 2\<rfloor>"

definition progress_of :: "nat \<Rightarrow> nat \<Rightarrow> int" where
  "progress_of processedUnique len =
     math_round (fl (fl (of_nat processedUnique / of_nat len) * 100))"

section \<open>Plain objects\<close>

text \<open>
  \<^verbatim>\<open>translationCache = {}\<close> is a plain object: its own properties and its prototype, at
  first \<^verbatim>\<open>Object.prototype\<close>. A read \<^verbatim>\<open>ob[k]\<close> that finds no own property goes up the
  prototype chain; so does a write \<^verbatim>\<open>ob[k] = x\<close>, which ends in the setter of
  \<^verbatim>\<open>Object.prototype.__proto__\<close> when the chain leads there.
\<close>

record js_object =
  own :: "string \<rightharpoonup> jsval"
  proto :: jsval

definition object_prototype :: jsval where
  "object_prototype = JNative ''Object.prototype''"

definition empty_object :: js_object where
  "empty_object = \<lparr>own = Map.empty, proto = object_prototype\<rparr>"

text \<open>What a walk up the chain finds: nothing, a data property, or the accessor \<^verbatim>\<open>__proto__\<close>.\<close>

datatype found = NotFound | Data jsval | ProtoAccessor

text \<open>The methods of \<^verbatim>\<open>Object.prototype\<close>; its one accessor is \<^verbatim>\<open>__proto__\<close>.\<close>

definition object_prototype_methods :: "string list" where
  "object_prototype_methods =
     [''constructor'', ''__defineGetter__'', ''__defineSetter__'', ''hasOwnProperty'',
      ''__lookupGetter__'', ''__lookupSetter__'', ''isPrototypeOf'', ''propertyIsEnumerable'',
      ''toString'', ''valueOf'', ''toLocaleString'']"

definition object_prototype_find :: "string \<Rightarrow> found" where
  "object_prototype_find k =
     (if k = ''__proto__'' then ProtoAccessor
      else if k \<in> set object_prototype_methods then Data (JNative (''Object.prototype.'' @ k))
      else NotFound)"

text \<open>The decimal numeral of a number, as an array index is written.\<close>

definition digit :: "nat \<Rightarrow> char" where
  "digit d = ''0123456789'' ! d"

function decimal :: "nat \<Rightarrow> string" where
  "decimal n = (if n < 10 then [digit n] else decimal (n div 10) @ [digit (n mod 10)])"
  by pat_completeness auto
termination
  by (relation "measure id") auto

text \<open>The own properties of an array: its elements under their indices, and \<^verbatim>\<open>length\<close>.\<close>

definition array_own :: "jsval list \<Rightarrow> string \<Rightarrow> found" where
  "array_own xs k =
     (if k = ''length'' then Data (JNum (int (length xs)))
      else case find (\<lambda>i. decimal i = k) [0..<length xs] of
             Some i \<Rightarrow> Data (xs ! i)
           | None \<Rightarrow> NotFound)"

text \<open>
  The search for the property \<open>k\<close> from the object \<open>p\<close> upwards, \<open>p\<close> being a prototype:
  \<^verbatim>\<open>Object.prototype\<close> itself, \<^verbatim>\<open>null\<close>, or an object or array that came out of
  \<^verbatim>\<open>JSON.parse\<close> (whose own prototype is \<^verbatim>\<open>Object.prototype\<close> or \<^verbatim>\<open>Array.prototype\<close>). \<open>ap\<close>
  are the property names of \<^verbatim>\<open>Array.prototype\<close>.
\<close>

definition chain_find :: "string list \<Rightarrow> jsval \<Rightarrow> string \<Rightarrow> found" where
  "chain_find ap p k =
     (case p of
        JObj kvs \<Rightarrow> (case map_of kvs k of Some x \<Rightarrow> Data x | None \<Rightarrow> object_prototype_find k)
      | JArr xs \<Rightarrow>
          (case array_own xs k of
             NotFound \<Rightarrow>
               (if k \<in> set ap then Data (JNative (''Array.prototype.'' @ k))
                else object_prototype_find k)
           | f \<Rightarrow> f)
      | JNative n \<Rightarrow> object_prototype_find k
      | _ \<Rightarrow> NotFound)"

text \<open>\<^verbatim>\<open>ob[k]\<close>. The getter of \<^verbatim>\<open>__proto__\<close> returns the prototype of \<open>ob\<close>.\<close>

definition obj_get :: "string list \<Rightarrow> js_object \<Rightarrow> string \<Rightarrow> jsval" where
  "obj_get ap ob k =
     (case own ob k of
        Some x \<Rightarrow> x
      | None \<Rightarrow>
          (case chain_find ap (proto ob) k of
             Data x \<Rightarrow> x
           | ProtoAccessor \<Rightarrow> proto ob
           | NotFound \<Rightarrow> JUndefined))"

definition is_object :: "jsval \<Rightarrow> bool" where
  "is_object x = (case x of JObj kvs \<Rightarrow> True | JArr xs \<Rightarrow> True | JNative n \<Rightarrow> True | _ \<Rightarrow> False)"

text \<open>
  \<^verbatim>\<open>ob[k] = x\<close>. An own property is overwritten. Otherwise, if the chain leads to the
  accessor \<^verbatim>\<open>__proto__\<close>, its setter replaces the prototype of \<open>ob\<close> when \<open>x\<close> is an object
  or \<^verbatim>\<open>null\<close> and does nothing for any other \<open>x\<close>; in every other case (the properties on
  the chain being writable data properties) \<open>ob\<close> gets a new own property.
\<close>

definition obj_set :: "string list \<Rightarrow> js_object \<Rightarrow> string \<Rightarrow> jsval \<Rightarrow> js_object" where
  "obj_set ap ob k x =
     (if own ob k \<noteq> None then ob\<lparr>own := (own ob)(k \<mapsto> x)\<rparr>
      else case chain_find ap (proto ob) k of
             ProtoAccessor \<Rightarrow> (if is_object x \<or> x = JNull then ob\<lparr>proto := x\<rparr> else ob)
           | _ \<Rightarrow> ob\<lparr>own := (own ob)(k \<mapsto> x)\<rparr>)"

section \<open>The translation loop\<close>

definition batchSize :: nat where
  "batchSize = 100"

definition dq :: string where
  "dq = [CHR 0x22]"

definition nl :: string where
  "nl = [CHR 0x0A]"

text \<open>\<^verbatim>\<open>batch.join("\n")\<close>.\<close>

fun join :: "string \<Rightarrow> string list \<Rightarrow> string" where
  "join sep [] = []"
| "join sep [x] = x"
| "join sep (x # y # ys) = x @ sep @ join sep (y # ys)"

definition build_prompt :: "string \<Rightarrow> string list \<Rightarrow> string" where
  "build_prompt customHeader batch =
     ''Translate the lines of text after delimiter '' @ dq @ ''-->'' @ dq @ '' to Norwegian.''
       @ customHeader @ ''.'' @ nl @
     ''Respond with a JSON array where each entry is an object with two keys:'' @ nl @
     ''  '' @ dq @ ''key'' @ dq @ '': the original text exactly as provided,'' @ nl @
     ''  '' @ dq @ ''value'' @ dq @ '': the Norwegian translation.'' @ nl @
     ''For example, if the input is:'' @ nl @
     ''Select...'' @ nl @
     ''New'' @ nl @
     ''The output should be:'' @ nl @
     ''['' @ nl @
     ''  {'' @ dq @ ''key'' @ dq @ '': '' @ dq @ ''Select...'' @ dq @ '', '' @ dq @ ''value'' @ dq
       @ '': '' @ dq @ ''Velg...'' @ dq @ ''},'' @ nl @
     ''  {'' @ dq @ ''key'' @ dq @ '': '' @ dq @ ''New'' @ dq @ '', '' @ dq @ ''value'' @ dq
       @ '': '' @ dq @ ''Nytt'' @ dq @ ''}'' @ nl @
     '']'' @ nl @
     ''Do not output any additional text.'' @ nl @
     ''Here are the strings -->'' @ nl @
     join nl batch"

text \<open>
  The state the loop works on: the cache, the prompts sent to the model so far and the
  progress values written to the job store so far.
\<close>

record job_state =
  cache :: js_object
  requests :: "string list"
  progress_updates :: "int list"

text \<open>The \<^verbatim>\<open>catch\<close> branch: \<^verbatim>\<open>batch.forEach((original) => { translationCache[original] = ""; })\<close>.\<close>

definition mark_empty :: "string list \<Rightarrow> string list \<Rightarrow> js_object \<Rightarrow> js_object" where
  "mark_empty ap batch c = fold (\<lambda>original ob. obj_set ap ob original (JStr [])) batch c"

text \<open>
  Reading the member \<^verbatim>\<open>key\<close> or \<^verbatim>\<open>value\<close> of an element of the parsed array: a
  \<^verbatim>\<open>TypeError\<close> on \<^verbatim>\<open>null\<close> and \<^verbatim>\<open>undefined\<close>, \<^verbatim>\<open>undefined\<close> where the member is missing
  (no prototype of a parsed value has a property of either name). Of a key that the JSON
  text repeats the first pair of the list counts; \<^verbatim>\<open>JSON.parse\<close> keeps one value per key.
\<close>

fun member_of :: "jsval \<Rightarrow> string \<Rightarrow> js_error + jsval" where
  "member_of JUndefined name = Inl TypeError"
| "member_of JNull name = Inl TypeError"
| "member_of (JObj kvs) name = Inr (case map_of kvs name of Some x \<Rightarrow> x | None \<Rightarrow> JUndefined)"
| "member_of other name = Inr JUndefined"

text \<open>
  \<^verbatim>\<open>translatedBatch.forEach((translationObj) => { const key = translationObj.key.trim();
  translationCache[key] = translationObj.value; })\<close>. Calling \<^verbatim>\<open>trim\<close> on anything but a string
  throws a \<^verbatim>\<open>TypeError\<close>.
\<close>

fun update_cache :: "string list \<Rightarrow> jsval list \<Rightarrow> js_object \<Rightarrow> js_error + js_object" where
  "update_cache ap [] c = Inr c"
| "update_cache ap (translationObj # rest) c =
     (case member_of translationObj ''key'' of
        Inl e \<Rightarrow> Inl e
      | Inr k \<Rightarrow>
          (case k of
             JStr s \<Rightarrow>
               (case member_of translationObj ''value'' of
                  Inl e \<Rightarrow> Inl e
                | Inr x \<Rightarrow> update_cache ap rest (obj_set ap c (trim s) x))
           | _ \<Rightarrow> Inl TypeError))"

text \<open>
  One iteration of the \<^verbatim>\<open>for\<close> loop at index \<open>i\<close>. The first component is the exception
  that leaves the loop, if any.
\<close>

definition batch_step ::
  "env \<Rightarrow> string \<Rightarrow> string list \<Rightarrow> nat \<Rightarrow> job_state \<Rightarrow> js_error option \<times> job_state" where
  "batch_step en customHeader uniqueList i st =
     (let batch = take batchSize (drop i uniqueList);
          prompt = build_prompt customHeader batch;
          st1 = st\<lparr>requests := requests st @ [prompt]\<rparr>
      in case translateBatch en (i div batchSize) prompt of
           Inl err \<Rightarrow>
             (None, st1\<lparr>cache := mark_empty (array_prototype_names en) batch (cache st1)\<rparr>)
         | Inr translatedBatch \<Rightarrow>
             (case update_cache (array_prototype_names en) translatedBatch (cache st1) of
                Inl e \<Rightarrow> (Some e, st1)
              | Inr c \<Rightarrow>
                  (None, st1\<lparr>cache := c,
                     progress_updates := progress_updates st1 @
                       [progress_of (min (length uniqueList) (i + batchSize)) (length uniqueList)]\<rparr>)))"

function translate_loop ::
  "env \<Rightarrow> string \<Rightarrow> string list \<Rightarrow> nat \<Rightarrow> job_state \<Rightarrow> js_error option \<times> job_state" where
  "translate_loop en customHeader uniqueList i st =
     (if i < length uniqueList
      then (case batch_step en customHeader uniqueList i st of
              (Some e, st') \<Rightarrow> (Some e, st')
            | (None, st') \<Rightarrow> translate_loop en customHeader uniqueList (i + batchSize) st')
      else (None, st))"
  by pat_completeness auto
termination
  by (relation "measure (\<lambda>(en, customHeader, uniqueList, i, st). length uniqueList - i)")
     (auto simp: batchSize_def)

section \<open>Writing the translations back\<close>

text \<open>Step 3: \<^verbatim>\<open>item.translated = translationCache[item.original] || ""\<close>.\<close>

definition assign_translations :: "string list \<Rightarrow> js_object \<Rightarrow> row_item list \<Rightarrow> row_item list" where
  "assign_translations ap c rows =
     map (\<lambda>item. item\<lparr>translated := js_or (obj_get ap c (original item)) (JStr [])\<rparr>) rows"

text \<open>Step 4, for one item: \<^verbatim>\<open>ws[ref] = { t: "s", v: item.translated || "" }\<close>.\<close>

definition write_cell :: "row_item \<Rightarrow> workbook \<Rightarrow> workbook" where
  "write_cell item wb =
     (case Sheets wb (sheetName item) of
        None \<Rightarrow> wb
      | Some ws \<Rightarrow>
          wb\<lparr>Sheets := (Sheets wb)(sheetName item \<mapsto>
               ws\<lparr>cells := (cells ws)((item_targetColIndex item, row item) \<mapsto>
                     \<lparr>t = ''s'', v = js_or (translated item) (JStr [])\<rparr>)\<rparr>)\<rparr>)"

definition write_cells :: "row_item list \<Rightarrow> workbook \<Rightarrow> workbook" where
  "write_cells rows wb = fold write_cell rows wb"

text \<open>The writer step: steps 3 and 4 together.\<close>

definition writer :: "string list \<Rightarrow> js_object \<Rightarrow> row_item list \<Rightarrow> workbook \<Rightarrow> workbook" where
  "writer ap c rows wb = write_cells (assign_translations ap c rows) wb"

section \<open>The job\<close>

text \<open>
  What one call of \<^verbatim>\<open>processFile\<close> leaves behind: the promise's result (\<open>Inl\<close> the error it
  rejects with, \<open>Inr\<close> the signed URL), the prompts sent, the progress values reported,
  the workbook in memory (if one was read) and the object uploaded (if any).
\<close>

record outcome =
  returned :: "js_error + string"
  out_requests :: "string list"
  out_progress :: "int list"
  out_workbook :: "workbook option"
  uploaded :: "(string \<times> workbook) option"

definition rejected :: "js_error \<Rightarrow> workbook option \<Rightarrow> job_state \<Rightarrow> outcome" where
  "rejected e wb st =
     \<lparr>returned = Inl e, out_requests = requests st, out_progress = progress_updates st,
      out_workbook = wb, uploaded = None\<rparr>"

definition init_state :: job_state where
  "init_state = \<lparr>cache = empty_object, requests = [], progress_updates = []\<rparr>"

text \<open>\<^verbatim>\<open>urlParts[urlParts.length - 1]\<close> of \<^verbatim>\<open>fileUrl.split("/")\<close>.\<close>

definition last_segment :: "string \<Rightarrow> string" where
  "last_segment fileUrl = rev (takeWhile (\<lambda>c. c \<noteq> CHR ''/'') (rev fileUrl))"

text \<open>\<^verbatim>\<open>workbook.Sheets[workbook.SheetNames[0]]\<close>, with the name.\<close>

definition first_sheet :: "workbook \<Rightarrow> (string \<times> worksheet) option" where
  "first_sheet wb =
     (case SheetNames wb of
        [] \<Rightarrow> None
      | name # _ \<Rightarrow> (case Sheets wb name of None \<Rightarrow> None | Some ws \<Rightarrow> Some (name, ws)))"

text \<open>
  What \<^verbatim>\<open>processFile\<close> has in hand when the translation loop starts: the file name, the
  custom header of the prompt, the workbook, \<^verbatim>\<open>rowsToTranslate\<close> and \<^verbatim>\<open>uniqueList\<close>.
\<close>

record prepared =
  p_fileName :: string
  p_customHeader :: string
  p_workbook :: workbook
  p_rows :: "row_item list"
  p_unique :: "string list"

text \<open>
  The first part of \<^verbatim>\<open>processFile\<close>, up to step 1: read the job, download and read the
  workbook, check the data range, resolve the columns and collect the rows. \<open>Inl\<close> is the
  error thrown, with the workbook if it had been read.
\<close>

definition prepare :: "env \<Rightarrow> string \<Rightarrow> string \<Rightarrow> js_error \<times> workbook option + prepared" where
  "prepare en fileUrl jobId =
     (let fileName = last_segment fileUrl
      in case job_select en jobId of
           Inl e \<Rightarrow> Inl (e, None)
         | Inr custom_comments \<Rightarrow>
             (let customComments = (case custom_comments of Some s \<Rightarrow> s | None \<Rightarrow> []);
                  customHeader =
                    (if customComments \<noteq> [] then nl @ ''Additional instructions: '' @ customComments
                     else [])
              in case download en fileName of
                   Inl e \<Rightarrow> Inl (e, None)
                 | Inr wb \<Rightarrow>
                     (case first_sheet wb of
                        None \<Rightarrow> Inl (Error ''No data range found in the first sheet.'', Some wb)
                      | Some (name, worksheet) \<Rightarrow>
                          (case ref worksheet of
                             None \<Rightarrow> Inl (Error ''No data range found in the first sheet.'', Some wb)
                           | Some rg \<Rightarrow>
                               (let cols = resolveColumnsForSingleSheet worksheet;
                                    rowsToTranslate =
                                      collect_rows worksheet rg name (sourceColIndex cols)
                                        (targetColIndex cols)
                                in Inr \<lparr>p_fileName = fileName, p_customHeader = customHeader,
                                        p_workbook = wb, p_rows = rowsToTranslate,
                                        p_unique = unique_texts rowsToTranslate\<rparr>)))))"

text \<open>\<^verbatim>\<open>processFile\<close>: the first part, then steps 2 to 5.\<close>

definition processFile :: "env \<Rightarrow> string \<Rightarrow> string \<Rightarrow> outcome" where
  "processFile en fileUrl jobId =
     (case prepare en fileUrl jobId of
        Inl (e, wbo) \<Rightarrow> rejected e wbo init_state
      | Inr p \<Rightarrow>
          (case translate_loop en (p_customHeader p) (p_unique p) 0 init_state of
             (Some e, st) \<Rightarrow> rejected e (Some (p_workbook p)) st
           | (None, st) \<Rightarrow>
               (let wb' = writer (array_prototype_names en) (cache st) (p_rows p) (p_workbook p);
                    processedFileName = ''processed-'' @ p_fileName p
                in case save en processedFileName wb' of
                     Some e \<Rightarrow> rejected e (Some wb') st
                   | None \<Rightarrow>
                       (case getSignedUrl en processedFileName of
                          Inl e \<Rightarrow>
                            (rejected e (Some wb') st)\<lparr>uploaded := Some (processedFileName, wb')\<rparr>
                        | Inr signedUrl \<Rightarrow>
                            \<lparr>returned = Inr signedUrl,
                             out_requests = requests st,
                             out_progress = progress_updates st,
                             out_workbook = Some wb',
                             uploaded = Some (processedFileName, wb')\<rparr>))))"

text \<open>
  The background part of the \<^verbatim>\<open>/process-file\<close> handler of \<^verbatim>\<open>src/server.js\<close>: the status
  the job ends with.
\<close>

definition final_status :: "env \<Rightarrow> string \<Rightarrow> string \<Rightarrow> string" where
  "final_status en fileUrl jobId =
     (case returned (processFile en fileUrl jobId) of
        Inr processedFileUrl \<Rightarrow> ''completed''
      | Inl err \<Rightarrow> ''error'')"

section \<open>Batches of a run\<close>

text \<open>
  Notions the properties below speak about. \<open>batch_of ul k\<close> is the slice the loop takes at
  index \<open>k * batchSize\<close>; \<open>before_batch en ch ul k\<close> is the state in which the loop reaches
  batch \<open>k\<close> (\<open>Inl\<close> when an earlier iteration threw).
\<close>

definition batch_of :: "string list \<Rightarrow> nat \<Rightarrow> string list" where
  "batch_of ul k = take batchSize (drop (k * batchSize) ul)"

definition batch_count :: "string list \<Rightarrow> nat" where
  "batch_count ul = (length ul + (batchSize - 1)) div batchSize"

fun before_batch :: "env \<Rightarrow> string \<Rightarrow> string list \<Rightarrow> nat \<Rightarrow> js_error + job_state" where
  "before_batch en ch ul 0 = Inr init_state"
| "before_batch en ch ul (Suc k) =
     (case before_batch en ch ul k of
        Inl e \<Rightarrow> Inl e
      | Inr st \<Rightarrow>
          (case batch_step en ch ul (k * batchSize) st of
             (Some e, st') \<Rightarrow> Inl e
           | (None, st') \<Rightarrow> Inr st'))"

text \<open>The trimmed keys of the elements of a parsed array that carry a string key.\<close>

definition keys_list :: "jsval list \<Rightarrow> string list" where
  "keys_list xs =
     concat (map (\<lambda>x. case member_of x ''key'' of Inr (JStr s) \<Rightarrow> [trim s] | _ \<Rightarrow> []) xs)"

text \<open>The cache keys batch \<open>k\<close> writes: its own strings when its translation fails, the
  trimmed returned keys when it succeeds.\<close>

definition batch_keys :: "env \<Rightarrow> string \<Rightarrow> string list \<Rightarrow> nat \<Rightarrow> string list" where
  "batch_keys en ch ul k =
     (case translateBatch en k (build_prompt ch (batch_of ul k)) of
        Inl e \<Rightarrow> batch_of ul k
      | Inr xs \<Rightarrow> keys_list xs)"

text \<open>The string candidates and the pattern candidates of a list, each in priority order.\<close>

fun strs :: "candidate list \<Rightarrow> string list" where
  "strs [] = []"
| "strs (CStr x # cs) = x # strs cs"
| "strs (CRe r # cs) = strs cs"

fun res :: "candidate list \<Rightarrow> (string \<Rightarrow> bool) list" where
  "res [] = []"
| "res (CRe r # cs) = r # res cs"
| "res (CStr x # cs) = res cs"

section \<open>Notions for the properties\<close>

text \<open>A row qualifies: its source cell exists, is of text type and is not blank.\<close>

definition qualifies :: "worksheet \<Rightarrow> nat \<Rightarrow> nat \<Rightarrow> bool" where
  "qualifies ws src r \<longleftrightarrow>
     (\<exists>cl s. getCell ws src r = Some cl \<and> t cl = ''s'' \<and> v cl = JStr s \<and> trim s \<noteq> [])"

text \<open>What one item writes into the cell map of the sheet called \<open>name\<close>.\<close>

definition put_cell :: "string \<Rightarrow> row_item \<Rightarrow> (nat \<times> nat \<rightharpoonup> cell) \<Rightarrow> (nat \<times> nat \<rightharpoonup> cell)" where
  "put_cell name item m =
     (if sheetName item = name
      then m((item_targetColIndex item, row item) \<mapsto> \<lparr>t = ''s'', v = js_or (translated item) (JStr [])\<rparr>)
      else m)"

text \<open>The cell at a position of a sheet of the workbook a run leaves behind.\<close>

definition cell_after :: "outcome \<Rightarrow> string \<Rightarrow> nat \<times> nat \<Rightarrow> cell option" where
  "cell_after oc name pos =
     (case out_workbook oc of
        None \<Rightarrow> None
      | Some wb \<Rightarrow> (case Sheets wb name of None \<Rightarrow> None | Some ws \<Rightarrow> cells ws pos))"

text \<open>The unique list a run works on, when the run gets as far as the loop.\<close>

definition unique_of :: "env \<Rightarrow> string \<Rightarrow> string \<Rightarrow> string list option" where
  "unique_of en fileUrl jobId =
     (case prepare en fileUrl jobId of Inl x \<Rightarrow> None | Inr p \<Rightarrow> Some (p_unique p))"

text \<open>The fixed text of the prompt, before the strings of the batch.\<close>

definition prompt_head :: "string \<Rightarrow> string" where
  "prompt_head customHeader = build_prompt customHeader []"

text \<open>
  Column resolution as claim C5 words it, for comparison with \<open>findColumnByHeader\<close>: the
  exact pass compares the trimmed header text, the pattern pass tests the raw header
  text, as the cell holds it.
\<close>

definition claimed_header_at :: "worksheet \<Rightarrow> nat \<Rightarrow> nat \<Rightarrow> header list" where
  "claimed_header_at ws headerRow c =
     (case getCell ws c headerRow of
        None \<Rightarrow> []
      | Some cl \<Rightarrow>
          (case v cl of
             JStr s \<Rightarrow>
               (if trim s \<noteq> [] then [\<lparr>h_text = s, h_lower = toLowerCase (trim s), h_col = c\<rparr>] else [])
           | _ \<Rightarrow> []))"

definition claimed_findColumn :: "worksheet \<Rightarrow> candidate list \<Rightarrow> nat option" where
  "claimed_findColumn ws candidates =
     (case ref ws of
        None \<Rightarrow> None
      | Some rg \<Rightarrow>
          (let headers = concat (map (claimed_header_at ws (s_r rg)) [s_c rg ..< Suc (e_c rg)]);
               wants = map norm candidates
           in case pass1 headers wants of
                Some c \<Rightarrow> Some c
              | None \<Rightarrow> pass2 headers wants))"

definition claimed_resolveColumns :: "worksheet \<Rightarrow> columns" where
  "claimed_resolveColumns ws =
     \<lparr>sourceColIndex = (case claimed_findColumn ws source_candidates of Some c \<Rightarrow> c | None \<Rightarrow> 1),
      targetColIndex = (case claimed_findColumn ws target_candidates of Some c \<Rightarrow> c | None \<Rightarrow> 3)\<rparr>"

section \<open>Sample inputs\<close>

text \<open>
  The sheet of the specification's scenario: the header row \<^verbatim>\<open>ID, Field Value, X,
  Translated string (nb)\<close> and three data rows.
\<close>

definition str_cell :: "string \<Rightarrow> cell" where
  "str_cell s = \<lparr>t = ''s'', v = JStr s\<rparr>"

definition demo_sheet :: worksheet where
  "demo_sheet =
     \<lparr>ref = Some \<lparr>s_c = 0, s_r = 0, e_c = 3, e_r = 3\<rparr>,
      cells = map_of
        [((0, 0), str_cell ''ID''), ((1, 0), str_cell ''Field Value''), ((2, 0), str_cell ''X''),
         ((3, 0), str_cell ''Translated string (nb)''),
         ((0, 1), str_cell ''1''), ((1, 1), str_cell ''Hello''),
         ((0, 2), str_cell ''2''), ((1, 2), str_cell ''Hello''),
         ((0, 3), str_cell ''3''), ((1, 3), str_cell ''Bye'')]\<rparr>"

text \<open>
  A sheet with cells to trim and rows to skip. In its source column 1: row 1 holds
  \<^verbatim>\<open>Hello\<close> between blanks, row 2 blanks only, row 3 a lone no-break space, row 4 a number,
  row 5 nothing, row 6 a string in a cell of numeric type, row 7 \<^verbatim>\<open>Bye\<close> between a tab and
  a no-break space.
\<close>

definition mixed_sheet :: worksheet where
  "mixed_sheet =
     \<lparr>ref = Some \<lparr>s_c = 0, s_r = 0, e_c = 3, e_r = 7\<rparr>,
      cells = map_of
        [((0, 0), str_cell ''ID''), ((1, 0), str_cell ''Field Value''),
         ((1, 1), str_cell ''  Hello  ''),
         ((1, 2), str_cell ''   ''),
         ((1, 3), str_cell [CHR 0xA0]),
         ((1, 4), \<lparr>t = ''n'', v = JNum 5\<rparr>),
         ((0, 5), str_cell ''5''),
         ((1, 6), \<lparr>t = ''n'', v = JStr ''x''\<rparr>),
         ((1, 7), str_cell ([CHR 0x09] @ ''Bye'' @ [CHR 0xA0]))]\<rparr>"

text \<open>A sheet whose third header starts with blanks.\<close>

definition padded_sheet :: worksheet where
  "padded_sheet =
     \<lparr>ref = Some \<lparr>s_c = 0, s_r = 0, e_c = 2, e_r = 1\<rparr>,
      cells = map_of
        [((0, 0), str_cell ''ID''), ((1, 0), str_cell ''Text''),
         ((2, 0), str_cell ''  Translated string (nb)''),
         ((0, 1), str_cell ''1''), ((1, 1), str_cell ''Hello'')]\<rparr>"

text \<open>
  A sheet whose headers carry no-break spaces and capitals: \<^verbatim>\<open>TEXT\<close> followed by a
  no-break space in column 2, \<^verbatim>\<open>Norsk\<close> between a no-break space and a blank in column 4,
  a number in column 0 and a blank header in column 1.
\<close>

definition nbsp_sheet :: worksheet where
  "nbsp_sheet =
     \<lparr>ref = Some \<lparr>s_c = 0, s_r = 0, e_c = 4, e_r = 1\<rparr>,
      cells = map_of
        [((0, 0), \<lparr>t = ''n'', v = JNum 7\<rparr>), ((1, 0), str_cell ''  ''),
         ((2, 0), str_cell (''TEXT'' @ [CHR 0xA0])),
         ((3, 0), str_cell ''Translation note''),
         ((4, 0), str_cell ([CHR 0xA0] @ ''Norsk '')),
         ((2, 1), str_cell ''Hello'')]\<rparr>"

text \<open>A sheet that declares no data range.\<close>

definition no_range_sheet :: worksheet where
  "no_range_sheet = \<lparr>ref = None, cells = Map.empty\<rparr>"

text \<open>A sheet with the source strings \<^verbatim>\<open>__proto__\<close>, \<^verbatim>\<open>toString\<close> and \<^verbatim>\<open>Hello\<close>.\<close>

definition proto_sheet :: worksheet where
  "proto_sheet =
     \<lparr>ref = Some \<lparr>s_c = 0, s_r = 0, e_c = 3, e_r = 3\<rparr>,
      cells = map_of
        [((1, 0), str_cell ''Field Value''), ((3, 0), str_cell ''Translation''),
         ((1, 1), str_cell ''__proto__''), ((1, 2), str_cell ''toString''),
         ((1, 3), str_cell ''Hello'')]\<rparr>"

text \<open>
  A sheet with 101 different source strings and a duplicate: the numerals \<^verbatim>\<open>001\<close> to
  \<^verbatim>\<open>101\<close> in rows 1 to 101 of column 1, \<^verbatim>\<open>001\<close> again in row 102, and no header.
\<close>

definition label :: "nat \<Rightarrow> string" where
  "label r = [digit (r div 100), digit (r div 10 mod 10), digit (r mod 10)]"

definition wide_sheet :: worksheet where
  "wide_sheet =
     \<lparr>ref = Some \<lparr>s_c = 0, s_r = 0, e_c = 1, e_r = 102\<rparr>,
      cells = (\<lambda>(c, r). if c = 1 \<and> 1 \<le> r \<and> r \<le> 102
                 then Some (str_cell (label (if r = 102 then 1 else r))) else None)\<rparr>"

text \<open>
  A workbook with one sheet, and an environment around it: the job row has no custom
  comments, the download yields the workbook, saving and signing succeed, and
  \<^verbatim>\<open>Array.prototype\<close> has the properties of Node 18.
\<close>

definition demo_workbook :: "worksheet \<Rightarrow> workbook" where
  "demo_workbook ws = \<lparr>SheetNames = [''Sheet1''], Sheets = [''Sheet1'' \<mapsto> ws]\<rparr>"

definition demo_env ::
  "worksheet \<Rightarrow> (nat \<Rightarrow> string \<Rightarrow> js_error + string) \<Rightarrow> (string \<Rightarrow> string + jsval) \<Rightarrow> env" where
  "demo_env ws reply parse =
     \<lparr>job_select = (\<lambda>jobId. Inr None),
      download = (\<lambda>fileName. Inr (demo_workbook ws)),
      model_reply = reply,
      json_parse = parse,
      array_prototype_names =
        [''length'', ''constructor'', ''at'', ''concat'', ''copyWithin'', ''fill'', ''find'',
         ''findIndex'', ''findLast'', ''findLastIndex'', ''lastIndexOf'', ''pop'', ''push'',
         ''reverse'', ''shift'', ''unshift'', ''slice'', ''sort'', ''splice'', ''includes'',
         ''indexOf'', ''join'', ''keys'', ''entries'', ''values'', ''forEach'', ''filter'', ''flat'',
         ''flatMap'', ''map'', ''every'', ''some'', ''reduce'', ''reduceRight'', ''toLocaleString'',
         ''toString''],
      save = (\<lambda>name wb. None),
      getSignedUrl = (\<lambda>name. Inr (''https://storage.example/'' @ name))\<rparr>"

text \<open>
  Models: one that answers every request with an array of bare numbers, one whose call
  always fails, one that answers with the empty array, and one that answers with a
  translation of \<^verbatim>\<open>Hello\<close> (its key padded with a blank) and of \<^verbatim>\<open>Bye\<close>.
\<close>

definition bare_reply :: "nat \<Rightarrow> string \<Rightarrow> js_error + string" where
  "bare_reply k prompt = Inr ''[1, 2]''"

definition bare_parse :: "string \<Rightarrow> string + jsval" where
  "bare_parse s = (if s = ''[1, 2]'' then Inr (JArr [JNum 1, JNum 2]) else Inl ''Unexpected token'')"

definition bare_reply_env :: env where
  "bare_reply_env = demo_env demo_sheet bare_reply bare_parse"

definition failing_reply :: "nat \<Rightarrow> string \<Rightarrow> js_error + string" where
  "failing_reply k prompt = Inl (Error ''503 Service Unavailable'')"

definition no_parse :: "string \<Rightarrow> string + jsval" where
  "no_parse s = Inl ''Unexpected token''"

definition failing_env :: env where
  "failing_env = demo_env demo_sheet failing_reply no_parse"

definition empty_reply_env :: env where
  "empty_reply_env =
     demo_env demo_sheet (\<lambda>k prompt. Inr ''[]'')
       (\<lambda>s. if s = ''[]'' then Inr (JArr []) else Inl ''Unexpected token'')"

definition good_reply :: string where
  "good_reply =
     ''[{'' @ dq @ ''key'' @ dq @ '': '' @ dq @ ''Hello '' @ dq @ '', '' @ dq @ ''value'' @ dq @ '': ''
       @ dq @ ''Hei'' @ dq @ ''}, {'' @ dq @ ''key'' @ dq @ '': '' @ dq @ ''Bye'' @ dq @ '', ''
       @ dq @ ''value'' @ dq @ '': '' @ dq @ ''Ha det'' @ dq @ ''},]''"

definition good_parsed :: "jsval list" where
  "good_parsed =
     [JObj [(''key'', JStr ''Hello ''), (''value'', JStr ''Hei'')],
      JObj [(''key'', JStr ''Bye''), (''value'', JStr ''Ha det'')]]"

definition good_json :: string where
  "good_json =
     ''[{'' @ dq @ ''key'' @ dq @ '': '' @ dq @ ''Hello '' @ dq @ '', '' @ dq @ ''value'' @ dq @ '': ''
       @ dq @ ''Hei'' @ dq @ ''}, {'' @ dq @ ''key'' @ dq @ '': '' @ dq @ ''Bye'' @ dq @ '', ''
       @ dq @ ''value'' @ dq @ '': '' @ dq @ ''Ha det'' @ dq @ ''}]''"

definition good_env :: env where
  "good_env =
     demo_env demo_sheet (\<lambda>k prompt. Inr (''<think>[x]</think> Here: '' @ good_reply @ '' done''))
       (\<lambda>s. if s = good_json then Inr (JArr good_parsed) else Inl ''Unexpected token'')"

text \<open>The failing model with the sheet whose source strings include \<^verbatim>\<open>__proto__\<close>.\<close>

definition proto_fail_env :: env where
  "proto_fail_env = demo_env proto_sheet failing_reply no_parse"

text \<open>The model that answers with the empty array, with the same sheet.\<close>

definition proto_empty_env :: env where
  "proto_empty_env =
     demo_env proto_sheet (\<lambda>k prompt. Inr ''[]'')
       (\<lambda>s. if s = ''[]'' then Inr (JArr []) else Inl ''Unexpected token'')"

text \<open>The model that answers with bare numbers, with the sheet of 101 strings.\<close>

definition wide_env :: env where
  "wide_env = demo_env wide_sheet bare_reply bare_parse"

text \<open>The prompt for the batch \<^verbatim>\<open>Hello\<close>, \<^verbatim>\<open>Bye\<close> without custom comments, written out.\<close>

definition sample_prompt :: string where
  "sample_prompt =
     ''Translate the lines of text after delimiter '' @ [CHR 0x22] @ ''-->'' @ [CHR 0x22]
       @ '' to Norwegian..'' @ [CHR 0x0A] @
     ''Respond with a JSON array where each entry is an object with two keys:'' @ [CHR 0x0A] @
     ''  '' @ [CHR 0x22] @ ''key'' @ [CHR 0x22] @ '': the original text exactly as provided,''
       @ [CHR 0x0A] @
     ''  '' @ [CHR 0x22] @ ''value'' @ [CHR 0x22] @ '': the Norwegian translation.'' @ [CHR 0x0A] @
     ''For example, if the input is:'' @ [CHR 0x0A] @ ''Select...'' @ [CHR 0x0A] @ ''New''
       @ [CHR 0x0A] @ ''The output should be:'' @ [CHR 0x0A] @ ''['' @ [CHR 0x0A] @
     ''  {'' @ [CHR 0x22] @ ''key'' @ [CHR 0x22] @ '': '' @ [CHR 0x22] @ ''Select...'' @ [CHR 0x22]
       @ '', '' @ [CHR 0x22] @ ''value'' @ [CHR 0x22] @ '': '' @ [CHR 0x22] @ ''Velg...''
       @ [CHR 0x22] @ ''},'' @ [CHR 0x0A] @
     ''  {'' @ [CHR 0x22] @ ''key'' @ [CHR 0x22] @ '': '' @ [CHR 0x22] @ ''New'' @ [CHR 0x22]
       @ '', '' @ [CHR 0x22] @ ''value'' @ [CHR 0x22] @ '': '' @ [CHR 0x22] @ ''Nytt''
       @ [CHR 0x22] @ ''}'' @ [CHR 0x0A] @ '']'' @ [CHR 0x0A] @
     ''Do not output any additional text.'' @ [CHR 0x0A] @
     ''Here are the strings -->'' @ [CHR 0x0A] @ ''Hello'' @ [CHR 0x0A] @ ''Bye''"

text \<open>A sample cache with one entry.\<close>

definition hello_cache :: js_object where
  "hello_cache = \<lparr>own = [''Hello'' \<mapsto> JStr ''Hei''], proto = object_prototype\<rparr>"

section \<open>Row extraction: properties\<close>

lemma row_at_cases:
  "row_at ws name src tgt r =
     (if qualifies ws src r
      then [\<lparr>sheetName = name, row = r,
             original = trim (case v (the (getCell ws src r)) of JStr s \<Rightarrow> s | _ \<Rightarrow> []),
             item_targetColIndex = tgt, translated = JUndefined\<rparr>]
      else [])"
  by (auto simp: row_at_def qualifies_def split: option.splits jsval.splits)

lemma rows_of_concat:
  "map row (concat (map (row_at ws name src tgt) rs)) = filter (qualifies ws src) rs"
  by (induction rs) (simp_all add: row_at_cases)

lemma row_at_item:
  "item \<in> set (row_at ws name src tgt r) \<Longrightarrow>
     row item = r \<and> sheetName item = name \<and> item_targetColIndex item = tgt \<and>
     translated item = JUndefined \<and>
     (\<exists>cl s. getCell ws src r = Some cl \<and> t cl = ''s'' \<and> v cl = JStr s \<and> trim s \<noteq> [] \<and> original item = trim s)"
  by (cases "getCell ws src r"; cases "v (the (getCell ws src r))")
     (auto simp: row_at_def split: if_splits)

lemma rows_items:
  assumes "item \<in> set (concat (map (row_at ws name src tgt) rs))"
  shows "row item \<in> set rs \<and> sheetName item = name \<and> item_targetColIndex item = tgt \<and>
     translated item = JUndefined \<and>
     (\<exists>cl s. getCell ws src (row item) = Some cl \<and> t cl = ''s'' \<and> v cl = JStr s \<and> trim s \<noteq> [] \<and> original item = trim s)"
proof -
  from assms obtain r where r: "r \<in> set rs" "item \<in> set (row_at ws name src tgt r)"
    by auto
  from row_at_item [OF r(2)] r(1) show ?thesis by auto
qed

text \<open>
  What \<open>trim\<close> computes: the string without the white space at its two ends.
\<close>

lemma trim_spec:
  "\<exists>a b. s = a @ trim s @ b \<and> (\<forall>c \<in> set a. is_ws c) \<and> (\<forall>c \<in> set b. is_ws c) \<and>
     (trim s \<noteq> [] \<longrightarrow> \<not> is_ws (hd (trim s)) \<and> \<not> is_ws (last (trim s)))"
proof -
  let ?d = "dropWhile is_ws s"
  let ?a = "takeWhile is_ws s"
  let ?b = "rev (takeWhile is_ws (rev ?d))"
  have s: "s = ?a @ ?d" by simp
  have "rev (takeWhile is_ws (rev ?d) @ dropWhile is_ws (rev ?d)) = rev (rev ?d)"
    by (simp only: takeWhile_dropWhile_id)
  then have "rev (dropWhile is_ws (rev ?d)) @ ?b = ?d"
    by (simp only: rev_append rev_rev_ident)
  then have d: "?d = trim s @ ?b" by (simp only: trim_def)
  have a: "\<forall>c \<in> set ?a. is_ws c" by (auto dest: set_takeWhileD)
  have b: "\<forall>c \<in> set ?b. is_ws c" by (auto dest: set_takeWhileD)
  have e: "\<not> is_ws (hd (trim s)) \<and> \<not> is_ws (last (trim s))" if ne: "trim s \<noteq> []"
  proof -
    from ne have n2: "dropWhile is_ws (rev ?d) \<noteq> []" by (simp add: trim_def)
    then have "\<not> is_ws (hd (dropWhile is_ws (rev ?d)))" by (rule hd_dropWhile)
    then have l: "\<not> is_ws (last (trim s))" using n2 by (simp add: trim_def last_rev)
    from d ne have dn: "?d \<noteq> []" by (metis append_is_Nil_conv)
    then have "\<not> is_ws (hd ?d)" by (rule hd_dropWhile)
    moreover from d ne have "hd ?d = hd (trim s)" by (metis hd_append2)
    ultimately show ?thesis using l by simp
  qed
  from s d have "s = ?a @ trim s @ ?b" by simp
  with a b e show ?thesis by blast
qed

lemma mixed_rows:
  "collect_rows mixed_sheet \<lparr>s_c = 0, s_r = 0, e_c = 3, e_r = 7\<rparr> ''Sheet1'' (Suc 0) 3 =
     [\<lparr>sheetName = ''Sheet1'', row = 1, original = ''Hello'', item_targetColIndex = 3, translated = JUndefined\<rparr>,
      \<lparr>sheetName = ''Sheet1'', row = 7, original = ''Bye'', item_targetColIndex = 3, translated = JUndefined\<rparr>]"
  by code_simp

lemma demo_rows:
  "collect_rows demo_sheet \<lparr>s_c = 0, s_r = 0, e_c = 3, e_r = 3\<rparr> ''Sheet1'' (Suc 0) 3 =
     [\<lparr>sheetName = ''Sheet1'', row = 1, original = ''Hello'', item_targetColIndex = 3, translated = JUndefined\<rparr>,
      \<lparr>sheetName = ''Sheet1'', row = 2, original = ''Hello'', item_targetColIndex = 3, translated = JUndefined\<rparr>,
      \<lparr>sheetName = ''Sheet1'', row = 3, original = ''Bye'', item_targetColIndex = 3, translated = JUndefined\<rparr>]"
  by (simp add: collect_rows_def row_at_def getCell_def demo_sheet_def str_cell_def trim_def is_ws_def upt_rec)


text \<open>
  Claim C6. The row extractor visits the rows from the one after the header to the last
  declared row, in order, and yields exactly one item for each row whose source cell
  exists, has type \<^verbatim>\<open>s\<close>, holds a string and is not blank after trimming; the item carries
  the trimmed text, the sheet name and the target column. Every other row is skipped;
  the extractor is a total function, so no row raises an error.
\<close>

theorem C6_row_extractor:
  "map row (collect_rows ws rg name src tgt) =
     filter (\<lambda>r. \<exists>cl s. getCell ws src r = Some cl \<and> t cl = ''s'' \<and> v cl = JStr s \<and> trim s \<noteq> [])
       [Suc (s_r rg) ..< Suc (e_r rg)]
   \<and> (\<forall>item \<in> set (collect_rows ws rg name src tgt).
        sheetName item = name \<and> item_targetColIndex item = tgt \<and>
        (\<exists>cl s. getCell ws src (row item) = Some cl \<and> t cl = ''s'' \<and> v cl = JStr s \<and>
                 trim s \<noteq> [] \<and> original item = trim s))"
  using rows_of_concat [of ws name src tgt "[Suc (s_r rg) ..< Suc (e_r rg)]"]
    rows_items [of _ ws name src tgt "[Suc (s_r rg) ..< Suc (e_r rg)]"]
  unfolding collect_rows_def qualifies_def by blast


theorem C6_row_extractor_witness:
  "collect_rows mixed_sheet \<lparr>s_c = 0, s_r = 0, e_c = 3, e_r = 7\<rparr> ''Sheet1'' (Suc 0) 3 =
     [\<lparr>sheetName = ''Sheet1'', row = 1, original = ''Hello'', item_targetColIndex = 3, translated = JUndefined\<rparr>,
      \<lparr>sheetName = ''Sheet1'', row = 7, original = ''Bye'', item_targetColIndex = 3, translated = JUndefined\<rparr>]
   \<and> filter (\<lambda>r. \<exists>cl s. getCell mixed_sheet (Suc 0) r = Some cl \<and> t cl = ''s'' \<and> v cl = JStr s \<and> trim s \<noteq> [])
       [Suc 0 ..< Suc 7] = [1, 7]"
proof -
  note th = C6_row_extractor [of mixed_sheet "\<lparr>s_c = 0, s_r = 0, e_c = 3, e_r = 7\<rparr>" "''Sheet1''" "Suc 0" 3,
      THEN conjunct1]
  have r: "map row (collect_rows mixed_sheet \<lparr>s_c = 0, s_r = 0, e_c = 3, e_r = 7\<rparr> ''Sheet1'' (Suc 0) 3) = [1, 7]"
    by (simp add: mixed_rows)
  from th r mixed_rows show ?thesis by simp
qed

section \<open>The job: properties\<close>

lemma processFile_prepare_Inl:
  "prepare en fileUrl jobId = Inl (e, wbo) \<Longrightarrow>
     processFile en fileUrl jobId = rejected e wbo init_state"
  by (simp add: processFile_def)

text \<open>
  Claim C9. When the workbook has been read and its first sheet declares no data range,
  \<^verbatim>\<open>processFile\<close> rejects with the error ``No data range found in the first sheet.'', the
  job ends with status \<^verbatim>\<open>error\<close>, and by then no prompt has been sent to the model, no
  progress has been reported, no cell of the workbook has been written and nothing has
  been uploaded.
\<close>

theorem C9_missing_range:
  assumes "job_select en jobId = Inr cc"
    and "download en (last_segment fileUrl) = Inr wb"
    and "first_sheet wb = Some (name, ws)"
    and "ref ws = None"
  shows "returned (processFile en fileUrl jobId) = Inl (Error ''No data range found in the first sheet.'')
     \<and> final_status en fileUrl jobId = ''error''
     \<and> out_requests (processFile en fileUrl jobId) = []
     \<and> out_progress (processFile en fileUrl jobId) = []
     \<and> out_workbook (processFile en fileUrl jobId) = Some wb
     \<and> uploaded (processFile en fileUrl jobId) = None"
proof -
  have "prepare en fileUrl jobId = Inl (Error ''No data range found in the first sheet.'', Some wb)"
    using assms by (simp add: prepare_def)
  then have "processFile en fileUrl jobId =
      rejected (Error ''No data range found in the first sheet.'') (Some wb) init_state"
    by (rule processFile_prepare_Inl)
  then show ?thesis
    by (simp add: final_status_def rejected_def init_state_def)
qed

theorem C9_missing_range_witness:
  "returned (processFile (demo_env no_range_sheet (\<lambda>k p. Inr ''[]'') (\<lambda>s. Inl ''none'')) ''gs://bucket/in.xlsx'' ''job-1'')
     = Inl (Error ''No data range found in the first sheet.'')
   \<and> final_status (demo_env no_range_sheet (\<lambda>k p. Inr ''[]'') (\<lambda>s. Inl ''none'')) ''gs://bucket/in.xlsx'' ''job-1'' = ''error''
   \<and> out_requests (processFile (demo_env no_range_sheet (\<lambda>k p. Inr ''[]'') (\<lambda>s. Inl ''none'')) ''gs://bucket/in.xlsx'' ''job-1'') = []
   \<and> uploaded (processFile (demo_env no_range_sheet (\<lambda>k p. Inr ''[]'') (\<lambda>s. Inl ''none'')) ''gs://bucket/in.xlsx'' ''job-1'') = None"
proof -
  let ?en = "demo_env no_range_sheet (\<lambda>k p. Inr ''[]'') (\<lambda>s. Inl ''none'')"
  have 1: "job_select ?en ''job-1'' = Inr None" by (simp add: demo_env_def)
  have 2: "download ?en (last_segment ''gs://bucket/in.xlsx'') = Inr (demo_workbook no_range_sheet)"
    by (simp add: demo_env_def)
  have 3: "first_sheet (demo_workbook no_range_sheet) = Some (''Sheet1'', no_range_sheet)"
    by (simp add: first_sheet_def demo_workbook_def)
  have 4: "ref no_range_sheet = None" by (simp add: no_range_sheet_def)
  from C9_missing_range [OF 1 2 3 4] show ?thesis by simp
qed

declare translate_loop.simps [simp del] strip_trailing_commas.simps [simp del] fl_up.simps [simp del]
  fl_down.simps [simp del] decimal.simps [simp del]

section \<open>Plain objects: properties\<close>

lemma object_prototype_find_accessor:
  "object_prototype_find k = ProtoAccessor \<Longrightarrow> k = ''__proto__''"
  unfolding object_prototype_find_def by (cases "k = ''__proto__''") (simp_all split: if_splits)

lemma array_own_data: "array_own xs k \<noteq> ProtoAccessor"
  unfolding array_own_def by (simp split: option.splits)

lemma chain_find_accessor: "chain_find ap p k = ProtoAccessor \<Longrightarrow> k = ''__proto__''"
proof (cases p)
  case (JObj kvs)
  assume "chain_find ap p k = ProtoAccessor"
  with JObj have "object_prototype_find k = ProtoAccessor"
    by (cases "map_of kvs k") (simp_all add: chain_find_def)
  then show ?thesis by (rule object_prototype_find_accessor)
next
  case (JArr xs)
  assume a: "chain_find ap p k = ProtoAccessor"
  have "object_prototype_find k = ProtoAccessor"
  proof (cases "array_own xs k")
    case NotFound
    with a JArr show ?thesis by (cases "k \<in> set ap") (simp_all add: chain_find_def)
  next
    case (Data x)
    with a JArr show ?thesis by (simp add: chain_find_def)
  next
    case ProtoAccessor
    with array_own_data [of xs k] show ?thesis by simp
  qed
  then show ?thesis by (rule object_prototype_find_accessor)
next
  case (JNative n)
  assume "chain_find ap p k = ProtoAccessor"
  with JNative have "object_prototype_find k = ProtoAccessor" by (simp add: chain_find_def)
  then show ?thesis by (rule object_prototype_find_accessor)
qed (simp_all add: chain_find_def)

lemma obj_set_new: "k \<noteq> ''__proto__'' \<Longrightarrow> obj_set ap c k x = c\<lparr>own := (own c)(k \<mapsto> x)\<rparr>"
  using chain_find_accessor [of ap "proto c" k]
  by (auto simp: obj_set_def split: found.splits)

lemma obj_set_own: "k \<noteq> ''__proto__'' \<Longrightarrow> own (obj_set ap c k x) = (own c)(k \<mapsto> x)"
  by (simp add: obj_set_new)

lemma obj_set_other: "s \<noteq> k \<Longrightarrow> own (obj_set ap c k x) s = own c s"
  by (simp add: obj_set_def split: found.splits)

lemma obj_set_dom:
  "dom (own (obj_set ap c k x)) - {''__proto__''} = insert k (dom (own c)) - {''__proto__''}"
proof (cases "k = ''__proto__''")
  case False
  then show ?thesis by (simp add: obj_set_own)
next
  case True
  have "s \<in> dom (own (obj_set ap c k x)) \<longleftrightarrow> s \<in> dom (own c)" if "s \<noteq> k" for s
    using obj_set_other [OF that, of ap c x] by (simp add: dom_def)
  with True show ?thesis by auto
qed

lemma obj_set_string_proto: "proto (obj_set ap c k (JStr s)) = proto c"
  by (simp add: obj_set_def is_object_def split: found.splits)

lemma obj_set_accessor:
  "own c ''__proto__'' = None \<Longrightarrow> chain_find ap (proto c) ''__proto__'' = ProtoAccessor \<Longrightarrow>
     obj_set ap c ''__proto__'' (JStr s) = c"
  by (simp add: obj_set_def is_object_def)

lemma native_accessor: "chain_find ap (JNative n) ''__proto__'' = ProtoAccessor"
  by (simp add: chain_find_def object_prototype_find_def)

section \<open>The translation loop: properties\<close>
lemma loop_step:
  "i < length ul \<Longrightarrow>
     translate_loop en ch ul i st =
       (case batch_step en ch ul i st of
          (Some e, st') \<Rightarrow> (Some e, st')
        | (None, st') \<Rightarrow> translate_loop en ch ul (i + batchSize) st')"
  by (subst translate_loop.simps) simp

lemma loop_done: "\<not> i < length ul \<Longrightarrow> translate_loop en ch ul i st = (None, st)"
  by (subst translate_loop.simps) simp

lemma batch_exists_iff: "Suc k \<le> batch_count ul \<longleftrightarrow> k * batchSize < length ul"
proof -
  have "Suc k \<le> (length ul + 99) div 100 \<longleftrightarrow> Suc k * 100 \<le> length ul + 99"
    by (rule less_eq_div_iff_mult_less_eq) simp
  then show ?thesis
    unfolding batch_count_def batchSize_def by simp linarith
qed

lemma loop_reaches:
  "k \<le> batch_count ul \<Longrightarrow> before_batch en ch ul k = Inr st \<Longrightarrow>
     translate_loop en ch ul 0 init_state = translate_loop en ch ul (k * batchSize) st"
proof (induction k arbitrary: st)
  case 0
  then show ?case by simp
next
  case (Suc k)
  from Suc.prems(2) obtain st0 where b: "before_batch en ch ul k = Inr st0"
    and s: "batch_step en ch ul (k * batchSize) st0 = (None, st)"
    by (auto split: sum.splits prod.splits option.splits)
  from Suc.prems(1) have lt: "k * batchSize < length ul" by (simp add: batch_exists_iff)
  from Suc.prems(1) have "k \<le> batch_count ul" by simp
  from Suc.IH [OF this b]
  have "translate_loop en ch ul 0 init_state = translate_loop en ch ul (k * batchSize) st0" .
  also have "\<dots> = translate_loop en ch ul (k * batchSize + batchSize) st"
    using loop_step [OF lt, of en ch st0] s by simp
  finally show ?case by (simp add: add.commute)
qed

lemma loop_throws:
  assumes "k * batchSize < length ul" and "before_batch en ch ul k = Inr st"
    and "batch_step en ch ul (k * batchSize) st = (Some e, st')"
  shows "translate_loop en ch ul 0 init_state = (Some e, st')"
proof -
  from assms(1) have "k \<le> batch_count ul" using batch_exists_iff [of k ul] by simp
  from loop_reaches [OF this assms(2)] loop_step [OF assms(1), of en ch st] assms(3)
  show ?thesis by simp
qed

lemma mark_empty_Cons:
  "mark_empty ap (x # batch) c = mark_empty ap batch (obj_set ap c x (JStr []))"
  by (simp add: mark_empty_def)

lemma mark_empty_own:
  "s \<noteq> ''__proto__'' \<Longrightarrow>
     own (mark_empty ap batch c) s = (if s \<in> set batch then Some (JStr []) else own c s)"
proof (induction batch arbitrary: c)
  case Nil
  show ?case by (simp add: mark_empty_def)
next
  case (Cons x batch)
  show ?case
  proof (cases "s = x")
    case True
    with Cons.prems have "own (obj_set ap c x (JStr [])) s = Some (JStr [])"
      by (simp add: obj_set_own)
    with Cons.IH [OF Cons.prems, of "obj_set ap c x (JStr [])"] True show ?thesis
      by (simp add: mark_empty_Cons)
  next
    case False
    then have "own (obj_set ap c x (JStr [])) s = own c s" by (rule obj_set_other)
    with Cons.IH [OF Cons.prems, of "obj_set ap c x (JStr [])"] False show ?thesis
      by (simp add: mark_empty_Cons)
  qed
qed

lemma mark_empty_other: "s \<notin> set batch \<Longrightarrow> own (mark_empty ap batch c) s = own c s"
proof (induction batch arbitrary: c)
  case Nil
  show ?case by (simp add: mark_empty_def)
next
  case (Cons x batch)
  from Cons.prems have "s \<noteq> x" "s \<notin> set batch" by simp_all
  from Cons.IH [OF this(2), of "obj_set ap c x (JStr [])"] obj_set_other [OF this(1), of ap c "JStr []"]
  show ?case by (simp add: mark_empty_Cons)
qed

lemma mark_empty_proto: "proto (mark_empty ap batch c) = proto c"
  by (induction batch arbitrary: c) (simp_all add: mark_empty_def obj_set_string_proto)

lemma mark_empty_accessor:
  assumes "own c ''__proto__'' = None" and "chain_find ap (proto c) ''__proto__'' = ProtoAccessor"
  shows "own (mark_empty ap batch c) ''__proto__'' = None"
  using assms
proof (induction batch arbitrary: c)
  case Nil
  then show ?case by (simp add: mark_empty_def)
next
  case (Cons x batch)
  let ?c = "obj_set ap c x (JStr [])"
  have o: "own ?c ''__proto__'' = None"
  proof (cases "x = ''__proto__''")
    case True
    with obj_set_accessor [OF Cons.prems] Cons.prems(1) show ?thesis by simp
  next
    case False
    then have "''__proto__'' \<noteq> x" by simp
    from obj_set_other [OF this, of ap c "JStr []"] Cons.prems(1) show ?thesis by simp
  qed
  have p: "chain_find ap (proto ?c) ''__proto__'' = ProtoAccessor"
    using Cons.prems(2) by (simp add: obj_set_string_proto)
  from Cons.IH [OF o p] show ?case by (simp add: mark_empty_Cons)
qed

lemma batch_step_fail:
  assumes "translateBatch en (i div batchSize) (build_prompt ch (take batchSize (drop i ul))) = Inl err"
  shows "batch_step en ch ul i st =
     (None, st\<lparr>requests := requests st @ [build_prompt ch (take batchSize (drop i ul))],
               cache := mark_empty (array_prototype_names en) (take batchSize (drop i ul)) (cache st)\<rparr>)"
  using assms by (simp add: batch_step_def Let_def)

lemma translateBatch_fails_iff:
  "(\<exists>err. translateBatch en k prompt = Inl err) \<longleftrightarrow>
     (\<exists>e. model_reply en k prompt = Inl e)
   \<or> (\<exists>raw. model_reply en k prompt = Inr raw \<and> match_array (trim (strip_think raw)) = None)
   \<or> (\<exists>raw m msg. model_reply en k prompt = Inr raw \<and> match_array (trim (strip_think raw)) = Some m
         \<and> json_parse en (strip_trailing_commas m) = Inl msg)
   \<or> (\<exists>raw m out. model_reply en k prompt = Inr raw \<and> match_array (trim (strip_think raw)) = Some m
         \<and> json_parse en (strip_trailing_commas m) = Inr out \<and> (\<forall>xs. out \<noteq> JArr xs))"
  unfolding translateBatch_def Let_def
  by (cases "model_reply en k prompt";
      cases "match_array (trim (strip_think (projr (model_reply en k prompt))))";
      cases "json_parse en (strip_trailing_commas (the (match_array (trim (strip_think (projr (model_reply en k prompt)))))))";
      cases "projr (json_parse en (strip_trailing_commas (the (match_array (trim (strip_think (projr (model_reply en k prompt))))))))")
     auto

text \<open>
  A batch whose translation fails: the iteration throws nothing; afterwards every string
  of the batch other than \<^verbatim>\<open>__proto__\<close> has the empty string as its own cache entry, every
  own entry outside the batch and the prototype of the cache are as before, no progress
  is reported and the loop goes on with the next batch.
\<close>

lemma failed_batch:
  assumes exists: "k * batchSize < length ul"
    and reached: "before_batch en ch ul k = Inr st"
    and fails: "translateBatch en k (build_prompt ch (batch_of ul k)) = Inl err"
  shows "\<exists>st'. before_batch en ch ul (Suc k) = Inr st'
     \<and> (\<forall>s \<in> set (batch_of ul k). s \<noteq> ''__proto__'' \<longrightarrow> own (cache st') s = Some (JStr []))
     \<and> (\<forall>s. s \<notin> set (batch_of ul k) \<longrightarrow> own (cache st') s = own (cache st) s)
     \<and> proto (cache st') = proto (cache st)
     \<and> progress_updates st' = progress_updates st
     \<and> requests st' = requests st @ [build_prompt ch (batch_of ul k)]
     \<and> translate_loop en ch ul 0 init_state = translate_loop en ch ul (Suc k * batchSize) st'"
proof -
  let ?b = "batch_of ul k" and ?ap = "array_prototype_names en"
  from fails have tb: "translateBatch en (k * batchSize div batchSize)
      (build_prompt ch (take batchSize (drop (k * batchSize) ul))) = Inl err"
    by (simp add: batch_of_def batchSize_def)
  define st' where "st' = st\<lparr>requests := requests st @ [build_prompt ch ?b],
      cache := mark_empty ?ap ?b (cache st)\<rparr>"
  have step: "batch_step en ch ul (k * batchSize) st = (None, st')"
    using batch_step_fail [OF tb, of st] by (simp add: st'_def batch_of_def)
  then have next_b: "before_batch en ch ul (Suc k) = Inr st'"
    using reached by simp
  from exists have "Suc k \<le> batch_count ul" by (simp add: batch_exists_iff)
  from loop_reaches [OF this next_b]
  have cont: "translate_loop en ch ul 0 init_state = translate_loop en ch ul (Suc k * batchSize) st'" .
  have c1: "\<forall>s \<in> set ?b. s \<noteq> ''__proto__'' \<longrightarrow> own (cache st') s = Some (JStr [])"
    by (simp add: st'_def mark_empty_own)
  have c2: "\<forall>s. s \<notin> set ?b \<longrightarrow> own (cache st') s = own (cache st) s"
    by (simp add: st'_def mark_empty_other)
  have c3: "progress_updates st' = progress_updates st" by (simp add: st'_def)
  have c4: "requests st' = requests st @ [build_prompt ch ?b]" by (simp add: st'_def)
  have c5: "proto (cache st') = proto (cache st)" by (simp add: st'_def mark_empty_proto)
  show ?thesis
    by (intro exI [of _ st'] conjI next_b c1 c2 c5 c3 c4 cont)
qed

lemma lower_simps:
  "toLowerCase [] = []"
  "toLowerCase (c # cs) = lower_char c # toLowerCase cs"
  by (simp_all add: toLowerCase_def)

lemma demo_headers:
  "collect_headers demo_sheet \<lparr>s_c = 0, s_r = 0, e_c = 3, e_r = 3\<rparr> =
     [\<lparr>h_text = ''ID'', h_lower = ''id'', h_col = 0\<rparr>,
      \<lparr>h_text = ''Field Value'', h_lower = ''field value'', h_col = 1\<rparr>,
      \<lparr>h_text = ''X'', h_lower = ''x'', h_col = 2\<rparr>,
      \<lparr>h_text = ''Translated string (nb)'', h_lower = ''translated string (nb)'', h_col = 3\<rparr>]"
  by code_simp

lemma demo_columns:
  "resolveColumnsForSingleSheet demo_sheet = \<lparr>sourceColIndex = 1, targetColIndex = 3\<rparr>"
proof -
  have r: "ref demo_sheet = Some \<lparr>s_c = 0, s_r = 0, e_c = 3, e_r = 3\<rparr>"
    by (simp add: demo_sheet_def)
  have s: "findColumnByHeader demo_sheet source_candidates = Some 1"
    by code_simp
  have t: "findColumnByHeader demo_sheet target_candidates = Some 3"
    by code_simp
  show ?thesis by (simp add: resolveColumnsForSingleSheet_def s t)
qed

lemma demo_unique:
  "unique_texts (collect_rows demo_sheet \<lparr>s_c = 0, s_r = 0, e_c = 3, e_r = 3\<rparr> ''Sheet1'' (Suc 0) 3)
     = [''Hello'', ''Bye'']"
  by (simp add: demo_rows unique_texts_def set_add_def)

lemma demo_prepare:
  "prepare (demo_env demo_sheet reply parse) ''gs://bucket/in.xlsx'' ''job-1'' =
     Inr \<lparr>p_fileName = ''in.xlsx'', p_customHeader = [], p_workbook = demo_workbook demo_sheet,
          p_rows = collect_rows demo_sheet \<lparr>s_c = 0, s_r = 0, e_c = 3, e_r = 3\<rparr> ''Sheet1'' (Suc 0) 3,
          p_unique = [''Hello'', ''Bye'']\<rparr>"
proof -
  have r: "ref demo_sheet = Some \<lparr>s_c = 0, s_r = 0, e_c = 3, e_r = 3\<rparr>"
    by (simp add: demo_sheet_def)
  have f: "first_sheet (demo_workbook demo_sheet) = Some (''Sheet1'', demo_sheet)"
    by (simp add: first_sheet_def demo_workbook_def)
  have l: "last_segment ''gs://bucket/in.xlsx'' = ''in.xlsx''"
    by (simp add: last_segment_def)
  show ?thesis
    by (simp add: prepare_def l demo_env_def f r demo_columns demo_unique Let_def)
qed

lemma member_of_Inl: "member_of x name = Inl e \<Longrightarrow> e = TypeError"
  by (cases x) auto

lemma member_of_value_Inr: "member_of x n1 = Inr y \<Longrightarrow> \<exists>z. member_of x n2 = Inr z"
  by (cases x) auto

lemma update_cache_throws:
  "\<exists>x \<in> set xs. \<forall>s. member_of x ''key'' \<noteq> Inr (JStr s) \<Longrightarrow> update_cache ap xs c = Inl TypeError"
proof (induction xs arbitrary: c)
  case Nil
  then show ?case by simp
next
  case (Cons x xs)
  show ?case
  proof (cases "member_of x ''key''")
    case (Inl e)
    then show ?thesis using member_of_Inl [OF Inl] by simp
  next
    case (Inr k)
    show ?thesis
    proof (cases "\<exists>s. k = JStr s")
      case False
      then show ?thesis using Inr by (cases k) auto
    next
      case True
      then obtain s where k: "k = JStr s" by blast
      from member_of_value_Inr [OF Inr] obtain z where z: "member_of x ''value'' = Inr z" by blast
      from Cons.prems Inr k have "\<exists>x \<in> set xs. \<forall>s. member_of x ''key'' \<noteq> Inr (JStr s)" by auto
      from Cons.IH [OF this] show ?thesis using Inr k z by simp
    qed
  qed
qed

lemma batch_step_throw:
  assumes "translateBatch en (i div batchSize) (build_prompt ch (take batchSize (drop i ul))) = Inr xs"
    and "update_cache (array_prototype_names en) xs (cache st) = Inl e"
  shows "batch_step en ch ul i st =
     (Some e, st\<lparr>requests := requests st @ [build_prompt ch (take batchSize (drop i ul))]\<rparr>)"
  using assms by (simp add: batch_step_def Let_def)

lemma processFile_loop_throws:
  assumes "prepare en fileUrl jobId = Inr p"
    and "translate_loop en (p_customHeader p) (p_unique p) 0 init_state = (Some e, st)"
  shows "processFile en fileUrl jobId = rejected e (Some (p_workbook p)) st"
  using assms by (simp add: processFile_def)

text \<open>
  Claim C10. Let the loop reach batch \<open>k\<close> and let the model's answer for it parse to an
  array that has an element whose \<^verbatim>\<open>key\<close> is not a string (a bare string or number, \<^verbatim>\<open>null\<close>,
  an object without \<^verbatim>\<open>key\<close>). Then the cache update throws a \<^verbatim>\<open>TypeError\<close> out of
  \<^verbatim>\<open>processFile\<close>: the promise rejects, the job ends with status \<^verbatim>\<open>error\<close>, nothing is
  written to the workbook or uploaded, and no progress is reported for the batch.
\<close>

theorem C10_bad_key_aborts_job:
  assumes prep: "prepare en fileUrl jobId = Inr p"
    and exists: "k * batchSize < length (p_unique p)"
    and reached: "before_batch en (p_customHeader p) (p_unique p) k = Inr st"
    and parsed: "translateBatch en k (build_prompt (p_customHeader p) (batch_of (p_unique p) k)) = Inr xs"
    and bad: "\<exists>x \<in> set xs. \<forall>s. member_of x ''key'' \<noteq> Inr (JStr s)"
  shows "returned (processFile en fileUrl jobId) = Inl TypeError
     \<and> final_status en fileUrl jobId = ''error''
     \<and> out_workbook (processFile en fileUrl jobId) = Some (p_workbook p)
     \<and> uploaded (processFile en fileUrl jobId) = None
     \<and> out_progress (processFile en fileUrl jobId) = progress_updates st
     \<and> before_batch en (p_customHeader p) (p_unique p) (Suc k) = Inl TypeError"
proof -
  let ?ch = "p_customHeader p" and ?ul = "p_unique p"
  have tb: "translateBatch en (k * batchSize div batchSize)
      (build_prompt ?ch (take batchSize (drop (k * batchSize) ?ul))) = Inr xs"
    using parsed by (simp add: batch_of_def batchSize_def)
  have uc: "update_cache (array_prototype_names en) xs (cache st) = Inl TypeError"
    using bad by (rule update_cache_throws)
  define st' where "st' = st\<lparr>requests := requests st @
      [build_prompt ?ch (take batchSize (drop (k * batchSize) ?ul))]\<rparr>"
  have step: "batch_step en ?ch ?ul (k * batchSize) st = (Some TypeError, st')"
    using batch_step_throw [OF tb uc] by (simp add: st'_def)
  have loop: "translate_loop en ?ch ?ul 0 init_state = (Some TypeError, st')"
    using loop_throws [OF exists reached step] .
  have pf: "processFile en fileUrl jobId = rejected TypeError (Some (p_workbook p)) st'"
    using processFile_loop_throws [OF prep loop] .
  have nb: "before_batch en ?ch ?ul (Suc k) = Inl TypeError"
    using reached step by simp
  show ?thesis
    using nb by (simp add: pf final_status_def rejected_def st'_def)
qed

lemma bare_reply_translate:
  "translateBatch bare_reply_env k prompt = Inr [JNum 1, JNum 2]"
proof -
  have 1: "strip_think ''[1, 2]'' = ''[1, 2]''" by code_simp
  have 2: "trim ''[1, 2]'' = ''[1, 2]''" by code_simp
  have 3: "match_array ''[1, 2]'' = Some ''[1, 2]''" by code_simp
  have 4: "strip_trailing_commas ''[1, 2]'' = ''[1, 2]''" by code_simp
  show ?thesis
    by (simp add: translateBatch_def bare_reply_env_def demo_env_def bare_reply_def bare_parse_def 1 2 3 4)
qed

theorem C10_bad_key_aborts_job_witness:
  "returned (processFile bare_reply_env ''gs://bucket/in.xlsx'' ''job-1'') = Inl TypeError
   \<and> final_status bare_reply_env ''gs://bucket/in.xlsx'' ''job-1'' = ''error''
   \<and> uploaded (processFile bare_reply_env ''gs://bucket/in.xlsx'' ''job-1'') = None
   \<and> out_progress (processFile bare_reply_env ''gs://bucket/in.xlsx'' ''job-1'') = []"
proof -
  let ?p = "\<lparr>p_fileName = ''in.xlsx'', p_customHeader = [], p_workbook = demo_workbook demo_sheet,
          p_rows = collect_rows demo_sheet \<lparr>s_c = 0, s_r = 0, e_c = 3, e_r = 3\<rparr> ''Sheet1'' (Suc 0) 3,
          p_unique = [''Hello'', ''Bye'']\<rparr>"
  have prep: "prepare bare_reply_env ''gs://bucket/in.xlsx'' ''job-1'' = Inr ?p"
    unfolding bare_reply_env_def by (rule demo_prepare)
  have exists: "0 * batchSize < length (p_unique ?p)" by simp
  have reached: "before_batch bare_reply_env (p_customHeader ?p) (p_unique ?p) 0 = Inr init_state"
    by simp
  have parsed: "translateBatch bare_reply_env 0
      (build_prompt (p_customHeader ?p) (batch_of (p_unique ?p) 0)) = Inr [JNum 1, JNum 2]"
    by (rule bare_reply_translate)
  have bad: "\<exists>x \<in> set [JNum 1, JNum 2]. \<forall>s. member_of x ''key'' \<noteq> Inr (JStr s)" by simp
  from C10_bad_key_aborts_job [OF prep exists reached parsed bad]
  show ?thesis by (simp add: init_state_def)
qed

section \<open>The writer: properties\<close>

lemma write_cell_closed:
  "write_cell item wb =
     wb\<lparr>Sheets := (\<lambda>name. map_option (\<lambda>ws. ws\<lparr>cells := put_cell name item (cells ws)\<rparr>) (Sheets wb name))\<rparr>"
proof -
  have "(\<lambda>name. map_option (\<lambda>ws. ws\<lparr>cells := put_cell name item (cells ws)\<rparr>) (Sheets wb name))
      = (case Sheets wb (sheetName item) of
           None \<Rightarrow> Sheets wb
         | Some ws \<Rightarrow> (Sheets wb)(sheetName item \<mapsto>
               ws\<lparr>cells := (cells ws)((item_targetColIndex item, row item) \<mapsto>
                     \<lparr>t = ''s'', v = js_or (translated item) (JStr [])\<rparr>)\<rparr>))"
  proof (rule ext)
    fix name
    show "map_option (\<lambda>ws. ws\<lparr>cells := put_cell name item (cells ws)\<rparr>) (Sheets wb name)
      = (case Sheets wb (sheetName item) of
           None \<Rightarrow> Sheets wb
         | Some ws \<Rightarrow> (Sheets wb)(sheetName item \<mapsto>
               ws\<lparr>cells := (cells ws)((item_targetColIndex item, row item) \<mapsto>
                     \<lparr>t = ''s'', v = js_or (translated item) (JStr [])\<rparr>)\<rparr>)) name"
      by (cases "name = sheetName item"; cases "Sheets wb name"; cases "Sheets wb (sheetName item)")
         (simp_all add: put_cell_def)
  qed
  then show ?thesis
    by (simp add: write_cell_def split: option.splits)
qed

lemma write_cells_closed:
  "write_cells rows wb =
     wb\<lparr>Sheets := (\<lambda>name. map_option (\<lambda>ws. ws\<lparr>cells := fold (put_cell name) rows (cells ws)\<rparr>)
                              (Sheets wb name))\<rparr>"
  unfolding write_cells_def
proof (induction rows arbitrary: wb)
  case Nil
  show ?case by (simp add: option.map_ident)
next
  case (Cons x xs)
  have "fold write_cell (x # xs) wb = fold write_cell xs (write_cell x wb)" by simp
  also have "\<dots> = (write_cell x wb)\<lparr>Sheets := (\<lambda>name. map_option
      (\<lambda>ws. ws\<lparr>cells := fold (put_cell name) xs (cells ws)\<rparr>) (Sheets (write_cell x wb) name))\<rparr>"
    by (rule Cons.IH)
  also have "\<dots> = wb\<lparr>Sheets := (\<lambda>name. map_option
      (\<lambda>ws. ws\<lparr>cells := fold (put_cell name) (x # xs) (cells ws)\<rparr>) (Sheets wb name))\<rparr>"
    by (simp add: write_cell_closed option.map_comp comp_def)
  finally show ?case .
qed

lemma put_cell_add: "put_cell name x (m ++ w) = m ++ put_cell name x w"
  by (simp add: put_cell_def)

lemma fold_put_cell_append:
  "fold (put_cell name) rows m = m ++ fold (put_cell name) rows Map.empty"
proof (induction rows rule: rev_induct)
  case Nil
  show ?case by simp
next
  case (snoc x xs)
  have "fold (put_cell name) (xs @ [x]) m = put_cell name x (fold (put_cell name) xs m)"
    by simp
  also have "\<dots> = put_cell name x (m ++ fold (put_cell name) xs Map.empty)"
    using snoc.IH by simp
  also have "\<dots> = m ++ put_cell name x (fold (put_cell name) xs Map.empty)"
    by (rule put_cell_add)
  also have "\<dots> = m ++ fold (put_cell name) (xs @ [x]) Map.empty" by simp
  finally show ?case .
qed

lemma fold_put_cell_idem:
  "fold (put_cell name) rows (fold (put_cell name) rows m) = fold (put_cell name) rows m"
proof -
  let ?w = "fold (put_cell name) rows Map.empty"
  have b: "fold (put_cell name) rows m = m ++ ?w" by (rule fold_put_cell_append)
  have "fold (put_cell name) rows (fold (put_cell name) rows m) = fold (put_cell name) rows m ++ ?w"
    by (rule fold_put_cell_append)
  also have "\<dots> = (m ++ ?w) ++ ?w" by (subst b) (rule refl)
  also have "\<dots> = m ++ ?w" by (rule ext) (simp add: map_add_def split: option.splits)
  also have "\<dots> = fold (put_cell name) rows m" by (rule b [symmetric])
  finally show ?thesis .
qed

lemma write_cells_idem: "write_cells rows (write_cells rows wb) = write_cells rows wb"
  by (simp add: write_cells_closed option.map_comp comp_def fold_put_cell_idem)

lemma js_or_empty_idem: "js_or (js_or x (JStr [])) (JStr []) = js_or x (JStr [])"
  by (simp add: js_or_def)

lemma writer_idem: "writer ap c rows (writer ap c rows wb) = writer ap c rows wb"
  unfolding writer_def by (rule write_cells_idem)

lemma put_cell_apply:
  "put_cell name x m a =
     (if sheetName x = name \<and> a = (item_targetColIndex x, row x)
      then Some \<lparr>t = ''s'', v = js_or (translated x) (JStr [])\<rparr>
      else m a)"
  by (simp add: put_cell_def)

lemma fold_put_cell_snoc:
  "fold (put_cell name) (xs @ [x]) m a =
     (if sheetName x = name \<and> a = (item_targetColIndex x, row x)
      then Some \<lparr>t = ''s'', v = js_or (translated x) (JStr [])\<rparr>
      else fold (put_cell name) xs m a)"
proof -
  have "fold (put_cell name) (xs @ [x]) m = put_cell name x (fold (put_cell name) xs m)"
    by simp
  then show ?thesis by (simp only: put_cell_apply)
qed

lemma fold_put_cell_hit:
  "item \<in> set rows \<Longrightarrow> sheetName item = name \<Longrightarrow>
     \<exists>item' \<in> set rows. sheetName item' = name \<and>
        item_targetColIndex item' = item_targetColIndex item \<and> row item' = row item \<and>
        fold (put_cell name) rows m (item_targetColIndex item, row item) =
          Some \<lparr>t = ''s'', v = js_or (translated item') (JStr [])\<rparr>"
proof (induction rows rule: rev_induct)
  case Nil
  then show ?case by simp
next
  case (snoc x xs)
  let ?a = "(item_targetColIndex item, row item)"
  note eq = fold_put_cell_snoc [of name xs x m ?a]
  show ?case
  proof (cases "sheetName x = name \<and> item_targetColIndex x = item_targetColIndex item \<and> row x = row item")
    case True
    with eq have "fold (put_cell name) (xs @ [x]) m ?a =
        Some \<lparr>t = ''s'', v = js_or (translated x) (JStr [])\<rparr>" by simp
    with True show ?thesis by (intro bexI [of _ x]) simp_all
  next
    case False
    with snoc.prems have "item \<in> set xs" by auto
    from snoc.IH [OF this snoc.prems(2)] obtain item' where i:
      "item' \<in> set xs" "sheetName item' = name"
      "item_targetColIndex item' = item_targetColIndex item" "row item' = row item"
      "fold (put_cell name) xs m ?a =
          Some \<lparr>t = ''s'', v = js_or (translated item') (JStr [])\<rparr>"
      by blast
    from False eq have "fold (put_cell name) (xs @ [x]) m ?a = fold (put_cell name) xs m ?a"
      by auto
    with i show ?thesis by (intro bexI [of _ item']) simp_all
  qed
qed

lemma writer_sheet:
  "Sheets (writer ap c rows wb) name =
     map_option (\<lambda>ws. ws\<lparr>cells := fold (put_cell name) (assign_translations ap c rows) (cells ws)\<rparr>)
       (Sheets wb name)"
  by (simp add: writer_def write_cells_closed)

lemma writer_cell:
  assumes "item \<in> set rows" and "Sheets wb (sheetName item) = Some ws"
  shows "\<exists>ws' item'. Sheets (writer ap c rows wb) (sheetName item) = Some ws' \<and> item' \<in> set rows \<and>
      sheetName item' = sheetName item \<and>
      item_targetColIndex item' = item_targetColIndex item \<and> row item' = row item \<and>
      cells ws' (item_targetColIndex item, row item) =
        Some \<lparr>t = ''s'', v = js_or (obj_get ap c (original item')) (JStr [])\<rparr>"
proof -
  let ?f = "\<lambda>item. item\<lparr>translated := js_or (obj_get ap c (original item)) (JStr [])\<rparr>"
  let ?rows = "assign_translations ap c rows"
  have in_rows: "?f item \<in> set ?rows" using assms(1) by (simp add: assign_translations_def)
  have "sheetName (?f item) = sheetName item" by simp
  from fold_put_cell_hit [OF in_rows this, of "cells ws"] obtain y where
    y: "y \<in> set ?rows" "sheetName y = sheetName item"
      "item_targetColIndex y = item_targetColIndex item" "row y = row item"
      "fold (put_cell (sheetName item)) ?rows (cells ws) (item_targetColIndex item, row item) =
          Some \<lparr>t = ''s'', v = js_or (translated y) (JStr [])\<rparr>"
    by auto
  from y(1) obtain item' where i: "item' \<in> set rows" "y = ?f item'"
    by (auto simp: assign_translations_def)
  let ?ws' = "ws\<lparr>cells := fold (put_cell (sheetName item)) ?rows (cells ws)\<rparr>"
  have s: "Sheets (writer ap c rows wb) (sheetName item) = Some ?ws'"
    by (simp add: writer_sheet assms(2))
  have "cells ?ws' (item_targetColIndex item, row item) =
      Some \<lparr>t = ''s'', v = js_or (obj_get ap c (original item')) (JStr [])\<rparr>"
    using y(5) i(2) by (simp add: js_or_empty_idem)
  moreover have "sheetName item' = sheetName item"
    "item_targetColIndex item' = item_targetColIndex item" "row item' = row item"
    using y(2,3,4) i(2) by simp_all
  ultimately show ?thesis using s i(1) by blast
qed

lemma obj_get_own: "own c s = Some x \<Longrightarrow> obj_get ap c s = x"
  by (simp add: obj_get_def)

lemma obj_get_absent:
  "own c s = None \<Longrightarrow> chain_find ap (proto c) s = NotFound \<Longrightarrow> obj_get ap c s = JUndefined"
  by (simp add: obj_get_def)

lemma obj_get_inherited:
  "own c s = None \<Longrightarrow> chain_find ap (proto c) s = Data x \<Longrightarrow> obj_get ap c s = x"
  by (simp add: obj_get_def)

text \<open>
  The writer step is idempotent: for every workbook, cache and row list, applying it a
  second time with the same cache and rows leaves the workbook as the first application
  left it. After it, the target cell of every row (on a sheet that exists) holds a cell of
  type \<^verbatim>\<open>s\<close> whose value is \<^verbatim>\<open>cache[original] || ""\<close> for the original of a row with that
  sheet and target cell. That value is the empty string when the cache object has no
  property of that name, neither its own nor inherited; it is the entry when the cache
  has an own entry that is truthy, and the empty string when the entry is falsy. A name
  without an own entry that the prototype of the cache object holds (\<^verbatim>\<open>toString\<close>, say)
  reads as the inherited value.
\<close>

lemma writer_step:
  "writer ap c rows (writer ap c rows wb) = writer ap c rows wb
   \<and> (\<forall>item \<in> set rows. \<forall>ws. Sheets wb (sheetName item) = Some ws \<longrightarrow>
        (\<exists>ws' item'. Sheets (writer ap c rows wb) (sheetName item) = Some ws' \<and> item' \<in> set rows \<and>
           sheetName item' = sheetName item \<and>
           item_targetColIndex item' = item_targetColIndex item \<and> row item' = row item \<and>
           cells ws' (item_targetColIndex item, row item) =
             Some \<lparr>t = ''s'', v = js_or (obj_get ap c (original item')) (JStr [])\<rparr>))
   \<and> (\<forall>s. own c s = None \<and> chain_find ap (proto c) s = NotFound \<longrightarrow>
          js_or (obj_get ap c s) (JStr []) = JStr [])
   \<and> (\<forall>s x. own c s = Some x \<longrightarrow>
          js_or (obj_get ap c s) (JStr []) = (if truthy x then x else JStr []))
   \<and> (\<forall>s x. own c s = None \<and> chain_find ap (proto c) s = Data x \<longrightarrow>
          js_or (obj_get ap c s) (JStr []) = (if truthy x then x else JStr []))"
proof -
  have a: "\<forall>s. own c s = None \<and> chain_find ap (proto c) s = NotFound \<longrightarrow>
          js_or (obj_get ap c s) (JStr []) = JStr []"
    by (simp add: obj_get_absent js_or_def)
  have b: "\<forall>s x. own c s = Some x \<longrightarrow>
          js_or (obj_get ap c s) (JStr []) = (if truthy x then x else JStr [])"
    by (simp add: obj_get_own js_or_def)
  have d: "\<forall>s x. own c s = None \<and> chain_find ap (proto c) s = Data x \<longrightarrow>
          js_or (obj_get ap c s) (JStr []) = (if truthy x then x else JStr [])"
    by (simp add: obj_get_inherited js_or_def)
  from writer_idem [of ap c rows wb] writer_cell [of _ rows wb _ ap c] a b d
  show ?thesis by blast
qed

lemma writer_step_sample:
  "writer [] hello_cache
      [\<lparr>sheetName = ''Sheet1'', row = 1, original = ''Hello'', item_targetColIndex = 3, translated = JUndefined\<rparr>,
       \<lparr>sheetName = ''Sheet1'', row = 2, original = ''toString'', item_targetColIndex = 3, translated = JUndefined\<rparr>,
       \<lparr>sheetName = ''Sheet1'', row = 3, original = ''Bye'', item_targetColIndex = 3, translated = JUndefined\<rparr>]
      (writer [] hello_cache
         [\<lparr>sheetName = ''Sheet1'', row = 1, original = ''Hello'', item_targetColIndex = 3, translated = JUndefined\<rparr>,
          \<lparr>sheetName = ''Sheet1'', row = 2, original = ''toString'', item_targetColIndex = 3, translated = JUndefined\<rparr>,
          \<lparr>sheetName = ''Sheet1'', row = 3, original = ''Bye'', item_targetColIndex = 3, translated = JUndefined\<rparr>]
         (demo_workbook demo_sheet))
    = writer [] hello_cache
         [\<lparr>sheetName = ''Sheet1'', row = 1, original = ''Hello'', item_targetColIndex = 3, translated = JUndefined\<rparr>,
          \<lparr>sheetName = ''Sheet1'', row = 2, original = ''toString'', item_targetColIndex = 3, translated = JUndefined\<rparr>,
          \<lparr>sheetName = ''Sheet1'', row = 3, original = ''Bye'', item_targetColIndex = 3, translated = JUndefined\<rparr>]
         (demo_workbook demo_sheet)
   \<and> (\<exists>ws'. Sheets (writer [] hello_cache
         [\<lparr>sheetName = ''Sheet1'', row = 1, original = ''Hello'', item_targetColIndex = 3, translated = JUndefined\<rparr>,
          \<lparr>sheetName = ''Sheet1'', row = 2, original = ''toString'', item_targetColIndex = 3, translated = JUndefined\<rparr>,
          \<lparr>sheetName = ''Sheet1'', row = 3, original = ''Bye'', item_targetColIndex = 3, translated = JUndefined\<rparr>]
         (demo_workbook demo_sheet)) ''Sheet1'' = Some ws'
        \<and> cells ws' (3, 1) = Some \<lparr>t = ''s'', v = JStr ''Hei''\<rparr>
        \<and> cells ws' (3, 2) = Some \<lparr>t = ''s'', v = JNative ''Object.prototype.toString''\<rparr>
        \<and> cells ws' (3, 3) = Some \<lparr>t = ''s'', v = JStr []\<rparr>)"
proof -
  let ?a = "\<lparr>sheetName = ''Sheet1'', row = 1, original = ''Hello'', item_targetColIndex = 3, translated = JUndefined\<rparr>"
  let ?m = "\<lparr>sheetName = ''Sheet1'', row = 2, original = ''toString'', item_targetColIndex = 3, translated = JUndefined\<rparr>"
  let ?b = "\<lparr>sheetName = ''Sheet1'', row = 3, original = ''Bye'', item_targetColIndex = 3, translated = JUndefined\<rparr>"
  let ?wb = "writer [] hello_cache [?a, ?m, ?b] (demo_workbook demo_sheet)"
  note th = writer_step [of "[]" hello_cache "[?a, ?m, ?b]" "demo_workbook demo_sheet"]
  have s: "Sheets (demo_workbook demo_sheet) ''Sheet1'' = Some demo_sheet"
    by (simp add: demo_workbook_def)
  from th have idem: "writer [] hello_cache [?a, ?m, ?b] ?wb = ?wb" by (rule conjunct1)
  from th have cellv: "\<forall>item \<in> set [?a, ?m, ?b]. \<forall>ws. Sheets (demo_workbook demo_sheet) (sheetName item) = Some ws \<longrightarrow>
        (\<exists>ws' item'. Sheets ?wb (sheetName item) = Some ws' \<and>
           item' \<in> set [?a, ?m, ?b] \<and> sheetName item' = sheetName item \<and>
           item_targetColIndex item' = item_targetColIndex item \<and> row item' = row item \<and>
           cells ws' (item_targetColIndex item, row item) =
             Some \<lparr>t = ''s'', v = js_or (obj_get [] hello_cache (original item')) (JStr [])\<rparr>)"
    by (rule conjunct2 [THEN conjunct1])
  from th have absent: "\<forall>s. own hello_cache s = None \<and> chain_find [] (proto hello_cache) s = NotFound \<longrightarrow>
          js_or (obj_get [] hello_cache s) (JStr []) = JStr []"
    by (rule conjunct2 [THEN conjunct2, THEN conjunct1])
  from th have present: "\<forall>s x. own hello_cache s = Some x \<longrightarrow>
          js_or (obj_get [] hello_cache s) (JStr []) = (if truthy x then x else JStr [])"
    by (rule conjunct2 [THEN conjunct2, THEN conjunct2, THEN conjunct1])
  from th have inherited: "\<forall>s x. own hello_cache s = None \<and> chain_find [] (proto hello_cache) s = Data x \<longrightarrow>
          js_or (obj_get [] hello_cache s) (JStr []) = (if truthy x then x else JStr [])"
    by (rule conjunct2 [THEN conjunct2, THEN conjunct2, THEN conjunct2])
  have o1: "own hello_cache ''Hello'' = Some (JStr ''Hei'')" by (simp add: hello_cache_def)
  have o2: "own hello_cache ''Bye'' = None" by (simp add: hello_cache_def)
  have o3: "chain_find [] (proto hello_cache) ''Bye'' = NotFound" by code_simp
  have o4: "own hello_cache ''toString'' = None" by (simp add: hello_cache_def)
  have o5: "chain_find [] (proto hello_cache) ''toString'' = Data (JNative ''Object.prototype.toString'')"
    by code_simp
  from inherited o4 o5
  have v3: "js_or (obj_get [] hello_cache ''toString'') (JStr []) = JNative ''Object.prototype.toString''"
    by simp
  from present o1 have v1: "js_or (obj_get [] hello_cache ''Hello'') (JStr []) = JStr ''Hei''" by simp
  from absent o2 o3 have v2: "js_or (obj_get [] hello_cache ''Bye'') (JStr []) = JStr []" by simp
  from cellv s obtain w1 i1 where a:
    "Sheets ?wb ''Sheet1'' = Some w1" "i1 \<in> set [?a, ?m, ?b]" "row i1 = 1"
    "cells w1 (3, 1) = Some \<lparr>t = ''s'', v = js_or (obj_get [] hello_cache (original i1)) (JStr [])\<rparr>"
    by fastforce
  from cellv s obtain w2 i2 where b:
    "Sheets ?wb ''Sheet1'' = Some w2" "i2 \<in> set [?a, ?m, ?b]" "row i2 = 3"
    "cells w2 (3, 3) = Some \<lparr>t = ''s'', v = js_or (obj_get [] hello_cache (original i2)) (JStr [])\<rparr>"
    by fastforce
  from cellv s obtain w3 i3 where m:
    "Sheets ?wb ''Sheet1'' = Some w3" "i3 \<in> set [?a, ?m, ?b]" "row i3 = 2"
    "cells w3 (3, 2) = Some \<lparr>t = ''s'', v = js_or (obj_get [] hello_cache (original i3)) (JStr [])\<rparr>"
    by fastforce
  from m(2,3) have "original i3 = ''toString''" by auto
  with m(4) v3 have c3: "cells w3 (3, 2) = Some \<lparr>t = ''s'', v = JNative ''Object.prototype.toString''\<rparr>"
    by simp
  from a(2,3) have "original i1 = ''Hello''" by auto
  with a(4) v1 have c1: "cells w1 (3, 1) = Some \<lparr>t = ''s'', v = JStr ''Hei''\<rparr>" by simp
  from b(2,3) have "original i2 = ''Bye''" by auto
  with b(4) v2 have c2: "cells w2 (3, 3) = Some \<lparr>t = ''s'', v = JStr []\<rparr>" by simp
  from a(1) b(1) m(1) have "w2 = w1" "w3 = w1" by simp_all
  with idem a(1) c1 c2 c3 show ?thesis by blast
qed

section \<open>Progress arithmetic: properties\<close>

lemma round_even_of_int: "round_even (of_int m) = m"
  by (simp add: round_even_def)

lemma round_even_bounds: "\<lfloor>q\<rfloor> \<le> round_even q" "round_even q \<le> \<lfloor>q\<rfloor> + 1"
  by (simp_all add: round_even_def Let_def)

lemma round_even_mono: "q \<le> q' \<Longrightarrow> round_even q \<le> round_even q'"
proof -
  assume le: "q \<le> q'"
  then have fl_le: "\<lfloor>q\<rfloor> \<le> \<lfloor>q'\<rfloor>" by (rule floor_mono)
  show ?thesis
  proof (cases "\<lfloor>q\<rfloor> = \<lfloor>q'\<rfloor>")
    case True
    with le have "q - of_int \<lfloor>q\<rfloor> \<le> q' - of_int \<lfloor>q'\<rfloor>" by simp
    with True show ?thesis by (auto simp: round_even_def Let_def)
  next
    case False
    with fl_le have "\<lfloor>q\<rfloor> + 1 \<le> \<lfloor>q'\<rfloor>" by simp
    with round_even_bounds(2) [of q] round_even_bounds(1) [of q'] show ?thesis by linarith
  qed
qed

lemma round_even_le_int: "q \<le> of_int m \<Longrightarrow> round_even q \<le> m"
  using round_even_mono [of q "of_int m"] by (simp add: round_even_of_int)

lemma round_even_ge_int: "of_int m \<le> q \<Longrightarrow> m \<le> round_even q"
  using round_even_mono [of "of_int m" q] by (simp add: round_even_of_int)

lemma fl_up_rec: "0 < x \<Longrightarrow> x < 2 ^ 52 \<Longrightarrow> fl_up x = fl_up (2 * x) / 2"
  by (subst fl_up.simps) simp

lemma fl_up_base: "\<not> (0 < x \<and> x < 2 ^ 52) \<Longrightarrow> fl_up x = of_int (round_even x)"
  by (subst fl_up.simps) (simp only: if_False)

lemma fl_up_le: "0 < x \<Longrightarrow> x < 2 ^ 52 \<Longrightarrow> fl_up x \<le> 2 ^ 52"
proof (induction x rule: fl_up.induct)
  case (1 x)
  show ?case
  proof (cases "2 * x < 2 ^ 52")
    case True
    with 1 have "fl_up (2 * x) \<le> 2 ^ 52" by simp
    with fl_up_rec [OF "1.prems"] show ?thesis by simp
  next
    case False
    have "2 * x \<le> of_int (2 ^ 53)" using "1.prems" by simp
    then have "round_even (2 * x) \<le> 2 ^ 53" by (rule round_even_le_int)
    then have "(of_int (round_even (2 * x)) :: rat) \<le> of_int (2 ^ 53)"
      by (simp only: of_int_le_iff)
    with False fl_up_base [of "2 * x"] fl_up_rec [OF "1.prems"] show ?thesis by simp
  qed
qed

lemma fl_up_mono: "0 < x \<Longrightarrow> x \<le> y \<Longrightarrow> fl_up x \<le> fl_up y"
proof (induction x arbitrary: y rule: fl_up.induct)
  case (1 x)
  show ?case
  proof (cases "x < 2 ^ 52")
    case xs: True
    show ?thesis
    proof (cases "y < 2 ^ 52")
      case True
      from "1.prems" have y0: "0 < y" by linarith
      from "1.prems" xs have "fl_up (2 * x) \<le> fl_up (2 * y)"
        by (intro "1.IH") simp_all
      with fl_up_rec [OF "1.prems"(1) xs] fl_up_rec [OF y0 True] show ?thesis by simp
    next
      case False
      then have "of_int (2 ^ 52) \<le> y" by simp
      then have "2 ^ 52 \<le> round_even y" by (rule round_even_ge_int)
      then have "(of_int (2 ^ 52) :: rat) \<le> of_int (round_even y)"
        by (simp only: of_int_le_iff)
      with False fl_up_base [of y] fl_up_le [OF "1.prems"(1) xs] show ?thesis by simp
    qed
  next
    case False
    with "1.prems" have "\<not> y < 2 ^ 52" by linarith
    with False fl_up_base [of x] fl_up_base [of y] round_even_mono [OF "1.prems"(2)]
    show ?thesis by simp
  qed
qed

lemma fl_up_pos: "0 < x \<Longrightarrow> 0 \<le> fl_up x"
proof (induction x rule: fl_up.induct)
  case (1 x)
  show ?case
  proof (cases "x < 2 ^ 52")
    case True
    with 1 have "0 \<le> fl_up (2 * x)" by simp
    with fl_up_rec [OF "1.prems" True] show ?thesis by simp
  next
    case False
    have "of_int 0 \<le> x" using "1.prems" by simp
    then have "0 \<le> round_even x" by (rule round_even_ge_int)
    with False fl_up_base [of x] show ?thesis by simp
  qed
qed

lemma fl_small: "0 < x \<Longrightarrow> x < 2 ^ 52 \<Longrightarrow> fl x = fl_up x"
  by (simp add: fl_def)

lemma fl_mono_small:
  assumes "0 \<le> x" and "x \<le> y" and "y < 2 ^ 52"
  shows "fl x \<le> fl y"
proof (cases "x = 0")
  case True
  show ?thesis
  proof (cases "y = 0")
    case True
    with \<open>x = 0\<close> show ?thesis by simp
  next
    case False
    with assms have y0: "0 < y" by linarith
    from fl_up_pos [OF y0] fl_small [OF y0 assms(3)] True show ?thesis by (simp add: fl_def)
  qed
next
  case False
  with assms have x0: "0 < x" and y0: "0 < y" and xs: "x < 2 ^ 52" by linarith+
  from fl_up_mono [OF x0 assms(2)] fl_small [OF x0 xs] fl_small [OF y0 assms(3)]
  show ?thesis by simp
qed

lemma fl_one: "fl 1 = 1"
  by code_simp

lemma fl_hundred: "fl 100 = 100"
  by code_simp

lemma math_round_mono: "x \<le> y \<Longrightarrow> math_round x \<le> math_round y"
  unfolding math_round_def by (intro floor_mono) simp

lemma math_round_hundred: "math_round 100 = 100"
  by code_simp

lemma progress_of_full: "0 < n \<Longrightarrow> progress_of n n = 100"
  by (simp add: progress_of_def fl_one fl_hundred math_round_hundred)

lemma progress_of_mono:
  assumes "p \<le> p'" and "p' \<le> n" and "0 < n"
  shows "progress_of p n \<le> progress_of p' n"
proof -
  let ?x = "of_nat p / of_nat n :: rat" and ?y = "of_nat p' / of_nat n :: rat"
  have big: "(100 :: rat) < 2 ^ 52" by simp
  have xy: "0 \<le> ?x" "?x \<le> ?y" "?y \<le> 1"
    using assms by (simp_all add: divide_right_mono)
  then have y52: "?y < 2 ^ 52" using big by linarith
  have a: "fl ?x \<le> fl ?y" using xy(1,2) y52 by (rule fl_mono_small)
  have b: "0 \<le> fl ?x"
    using fl_mono_small [of 0 ?x] xy y52 by (simp add: fl_def)
  have c: "fl ?y \<le> 1"
    using fl_mono_small [of ?y 1] xy by (simp add: fl_one)
  from a b c have "0 \<le> fl ?x * 100" "fl ?x * 100 \<le> fl ?y * 100" "fl ?y * 100 < 2 ^ 52"
    using big by simp_all
  then have "fl (fl ?x * 100) \<le> fl (fl ?y * 100)" by (rule fl_mono_small)
  then show ?thesis unfolding progress_of_def by (rule math_round_mono)
qed

text \<open>
  Below \<open>2 ^ 52\<close>, \<open>fl_up\<close> rounds at the scale that brings its argument into the range of
  the 53-bit integers.
\<close>

lemma fl_up_scale:
  "0 < x \<Longrightarrow> 2 ^ 52 \<le> x * 2 ^ k \<Longrightarrow> x * 2 ^ k < 2 ^ 53 \<Longrightarrow>
     fl_up x = of_int (round_even (x * 2 ^ k)) / 2 ^ k"
proof (induction k arbitrary: x)
  case 0
  then have "\<not> (0 < x \<and> x < 2 ^ 52)" by simp
  from fl_up_base [OF this] show ?case by simp
next
  case (Suc k)
  have "(1 :: rat) \<le> 2 ^ k" by simp
  with Suc.prems(1) have "x * 2 \<le> x * 2 * 2 ^ k" by simp
  with Suc.prems(3) have xs: "x < 2 ^ 52" by simp
  have e: "2 * x * 2 ^ k = x * 2 ^ Suc k" by simp
  have p1: "0 < 2 * x" using Suc.prems(1) by simp
  have p2: "2 ^ 52 \<le> 2 * x * 2 ^ k" using Suc.prems(2) by (simp only: e)
  have p3: "2 * x * 2 ^ k < 2 ^ 53" using Suc.prems(3) by (simp only: e)
  have "fl_up (2 * x) = of_int (round_even (2 * x * 2 ^ k)) / 2 ^ k"
    using p1 p2 p3 by (rule Suc.IH)
  then have "fl_up (2 * x) = of_int (round_even (x * 2 ^ Suc k)) / 2 ^ k" by (simp only: e)
  with fl_up_rec [OF Suc.prems(1) xs] show ?case by simp
qed

text \<open>
  At 2300 of 4000 unique strings the code reports 57: the quotient 0.575 is not a
  double, and the product of its nearest double with 100 rounds to a double below 57.5.
  The exact value of \<open>100 \<times> 2300 / 4000\<close> is 57.5, which rounds to 58.
\<close>

lemma progress_of_2300_of_4000:
  "progress_of 2300 4000 = 57" "math_round (100 * 2300 / 4000) = 58"
proof -
  have q: "(of_nat 2300 / of_nat 4000 :: rat) = 23 / 40" by simp
  have r1: "round_even (23 / 40 * 2 ^ 53) = 5179139571476070" by code_simp
  have "fl_up (23 / 40) = of_int (round_even (23 / 40 * 2 ^ 53)) / 2 ^ 53"
    by (rule fl_up_scale) simp_all
  then have f1: "fl (23 / 40) = 5179139571476070 / 2 ^ 53"
    by (simp only: r1) (simp add: fl_def)
  let ?y = "5179139571476070 / 2 ^ 53 * 100 :: rat"
  have r2: "round_even (?y * 2 ^ 47) = 8092405580431359" by code_simp
  have "fl_up ?y = of_int (round_even (?y * 2 ^ 47)) / 2 ^ 47"
    by (rule fl_up_scale) simp_all
  then have f2: "fl ?y = 8092405580431359 / 2 ^ 47"
    by (simp only: r2) (simp add: fl_def)
  have m: "math_round (8092405580431359 / 2 ^ 47) = 57" by code_simp
  show "progress_of 2300 4000 = 57"
    unfolding progress_of_def q f1 f2 by (rule m)
  show "math_round (100 * 2300 / 4000) = 58" by code_simp
qed

section \<open>Deduplication and propagation\<close>

lemma set_add_props:
  "set (set_add acc x) = insert x (set acc)" "distinct acc \<Longrightarrow> distinct (set_add acc x)"
  by (auto simp: set_add_def)

lemma foldl_set_add:
  "set (foldl set_add acc xs) = set acc \<union> set xs"
  "distinct acc \<Longrightarrow> distinct (foldl set_add acc xs)"
  by (induction xs arbitrary: acc) (auto simp: set_add_props)

lemma unique_texts_props:
  "distinct (unique_texts rows)" "set (unique_texts rows) = original ` set rows"
  by (simp_all add: unique_texts_def foldl_set_add)

lemma concat_batches: "concat (map (batch_of ul) [0..<m]) = take (m * batchSize) ul"
proof (induction m)
  case 0
  show ?case by simp
next
  case (Suc m)
  have "take (m * batchSize) ul @ take batchSize (drop (m * batchSize) ul)
      = take (m * batchSize + batchSize) ul"
    by (simp add: take_add)
  then show ?case using Suc by (simp add: batch_of_def add.commute)
qed

lemma batch_count_covers: "length ul \<le> batch_count ul * batchSize"
  unfolding batch_count_def batchSize_def by simp

lemma concat_all_batches: "concat (map (batch_of ul) [0..<batch_count ul]) = ul"
  by (simp add: concat_batches batch_count_covers)

lemma in_batch_iff:
  "s \<in> set (batch_of ul k) \<longleftrightarrow>
     (\<exists>i. k * batchSize \<le> i \<and> i < k * batchSize + batchSize \<and> i < length ul \<and> ul ! i = s)"
proof
  assume "s \<in> set (batch_of ul k)"
  then obtain j where j: "j < length (batch_of ul k)" "batch_of ul k ! j = s"
    by (auto simp: in_set_conv_nth)
  then have "j < batchSize" "k * batchSize + j < length ul"
    by (auto simp: batch_of_def)
  moreover from j this have "ul ! (k * batchSize + j) = s"
    by (simp add: batch_of_def)
  ultimately show "\<exists>i. k * batchSize \<le> i \<and> i < k * batchSize + batchSize \<and> i < length ul \<and> ul ! i = s"
    by (intro exI [of _ "k * batchSize + j"]) simp
next
  assume "\<exists>i. k * batchSize \<le> i \<and> i < k * batchSize + batchSize \<and> i < length ul \<and> ul ! i = s"
  then obtain i where i: "k * batchSize \<le> i" "i < k * batchSize + batchSize" "i < length ul" "ul ! i = s"
    by blast
  define j where "j = i - k * batchSize"
  have "j < length (batch_of ul k)" "batch_of ul k ! j = s"
    using i by (auto simp: j_def batch_of_def)
  then show "s \<in> set (batch_of ul k)" by (auto simp: in_set_conv_nth)
qed

lemma one_batch:
  assumes "distinct ul" and "s \<in> set ul"
  shows "\<exists>!k. k < batch_count ul \<and> s \<in> set (batch_of ul k)"
proof -
  from assms(2) obtain i where i: "i < length ul" "ul ! i = s"
    by (auto simp: in_set_conv_nth)
  have bs: "0 < batchSize" by (simp add: batchSize_def)
  let ?k = "i div batchSize"
  have k1: "?k * batchSize \<le> i" by simp
  have k2: "i < ?k * batchSize + batchSize"
    using bs div_mult_mod_eq [of i batchSize] mod_less_divisor [OF bs, of i] by linarith
  have "?k * batchSize < length ul" using k1 i(1) by linarith
  then have kc: "?k < batch_count ul" using batch_exists_iff [of ?k ul] by simp
  have kin: "s \<in> set (batch_of ul ?k)"
    using in_batch_iff [of s ul ?k] k1 k2 i by blast
  show ?thesis
  proof (rule ex1I [of _ ?k])
    show "?k < batch_count ul \<and> s \<in> set (batch_of ul ?k)" using kc kin by simp
  next
    fix k assume "k < batch_count ul \<and> s \<in> set (batch_of ul k)"
    then obtain i' where i': "k * batchSize \<le> i'" "i' < k * batchSize + batchSize"
      "i' < length ul" "ul ! i' = s"
      using in_batch_iff [of s ul k] by blast
    from i(2) i'(4) have "ul ! i' = ul ! i" by simp
    with assms(1) i(1) i'(3) have "i' = i" by (simp add: nth_eq_iff_index_eq)
    with i'(1,2) have "batchSize * k \<le> i" "i < batchSize * Suc k"
      by (simp_all add: mult.commute)
    then have "i div batchSize = k" by (rule div_nat_eqI)
    then show "k = ?k" by simp
  qed
qed

lemma batch_step_requests:
  "batch_step en ch ul i st = (r, st') \<Longrightarrow>
     requests st' = requests st @ [build_prompt ch (take batchSize (drop i ul))]"
  by (auto simp: batch_step_def Let_def split: sum.splits)

lemma before_batch_Suc_Inr:
  "before_batch en ch ul (Suc k) = Inr st' \<Longrightarrow>
     \<exists>st. before_batch en ch ul k = Inr st \<and> batch_step en ch ul (k * batchSize) st = (None, st')"
  by (auto split: sum.splits prod.splits option.splits)

lemma before_batch_requests:
  "before_batch en ch ul k = Inr st \<Longrightarrow>
     requests st = map (\<lambda>j. build_prompt ch (batch_of ul j)) [0..<k]"
proof (induction k arbitrary: st)
  case 0
  then show ?case by (auto simp: init_state_def)
next
  case (Suc k)
  from before_batch_Suc_Inr [OF Suc.prems] obtain st0 where
    b: "before_batch en ch ul k = Inr st0" and s: "batch_step en ch ul (k * batchSize) st0 = (None, st)"
    by blast
  from batch_step_requests [OF s] Suc.IH [OF b] show ?case
    by (simp add: batch_of_def)
qed

lemma batch_step_Some:
  "batch_step en ch ul i st = (Some e, st') \<Longrightarrow> progress_updates st' = progress_updates st"
  by (auto simp: batch_step_def Let_def split: sum.splits)

lemma loop_result:
  "k \<le> batch_count ul \<Longrightarrow> before_batch en ch ul k = Inr st0 \<Longrightarrow>
     translate_loop en ch ul (k * batchSize) st0 = (r, st) \<Longrightarrow>
     (r = None \<and> before_batch en ch ul (batch_count ul) = Inr st) \<or>
     (\<exists>e j stj. r = Some e \<and> j < batch_count ul \<and> before_batch en ch ul j = Inr stj \<and>
        batch_step en ch ul (j * batchSize) stj = (Some e, st))"
proof (induction "batch_count ul - k" arbitrary: k st0)
  case 0
  then have k: "k = batch_count ul" by simp
  then have "\<not> k * batchSize < length ul" using batch_exists_iff [of k ul] by simp
  from loop_done [OF this] "0.prems"(3) have "st = st0" "r = None" by simp_all
  with "0.prems"(2) k show ?case by simp
next
  case (Suc n)
  from Suc.hyps(2) have sk: "Suc k \<le> batch_count ul" by linarith
  then have lt: "k * batchSize < length ul" by (simp add: batch_exists_iff)
  obtain r1 st1 where bs: "batch_step en ch ul (k * batchSize) st0 = (r1, st1)"
    by (cases "batch_step en ch ul (k * batchSize) st0")
  show ?case
  proof (cases r1)
    case None
    with loop_step [OF lt, of en ch st0] bs Suc.prems(3)
    have l: "translate_loop en ch ul (Suc k * batchSize) st1 = (r, st)"
      by (simp add: add.commute)
    from bs None Suc.prems(2) have b: "before_batch en ch ul (Suc k) = Inr st1" by simp
    from Suc.hyps(2) have "n = batch_count ul - Suc k" by simp
    then show ?thesis using sk b l by (rule Suc.hyps(1))
  next
    case (Some e)
    with loop_step [OF lt, of en ch st0] bs Suc.prems(3)
    have rs: "r = Some e" "st = st1" by simp_all
    from sk have "k < batch_count ul" by simp
    moreover from bs Some rs have "batch_step en ch ul (k * batchSize) st0 = (Some e, st)" by simp
    ultimately show ?thesis using rs(1) Suc.prems(2) by blast
  qed
qed

lemma loop_complete0:
  "translate_loop en ch ul 0 init_state = (None, st) \<Longrightarrow>
     before_batch en ch ul (batch_count ul) = Inr st"
  using loop_result [of 0 ul en ch init_state None st] by simp

lemma loop_requests:
  assumes "translate_loop en ch ul 0 init_state = (r, st)"
  shows "\<exists>m \<le> batch_count ul. requests st = map (\<lambda>k. build_prompt ch (batch_of ul k)) [0..<m]"
proof -
  have b0: "before_batch en ch ul 0 = Inr init_state" by simp
  from loop_result [of 0 ul en ch init_state r st] b0 assms
  consider "r = None" "before_batch en ch ul (batch_count ul) = Inr st"
    | e j stj where "r = Some e" "j < batch_count ul" "before_batch en ch ul j = Inr stj"
        "batch_step en ch ul (j * batchSize) stj = (Some e, st)"
    by auto
  then show ?thesis
  proof cases
    case 1
    from before_batch_requests [OF 1(2)] show ?thesis by blast
  next
    case 2
    from batch_step_requests [OF 2(4)] before_batch_requests [OF 2(3)]
    have "requests st = map (\<lambda>k. build_prompt ch (batch_of ul k)) [0..<Suc j]"
      by (simp add: batch_of_def)
    moreover from 2(2) have "Suc j \<le> batch_count ul" by simp
    ultimately show ?thesis by blast
  qed
qed

lemma processFile_requests:
  "prepare en fileUrl jobId = Inr p \<Longrightarrow>
     out_requests (processFile en fileUrl jobId) =
       requests (snd (translate_loop en (p_customHeader p) (p_unique p) 0 init_state))"
  by (simp add: processFile_def rejected_def Let_def split: sum.splits prod.splits option.splits)

lemma prompt_join: "build_prompt ch b = prompt_head ch @ join nl b"
  by (simp add: build_prompt_def prompt_head_def)

lemma prepare_Inr:
  assumes "prepare en fileUrl jobId = Inr p"
  shows "\<exists>name ws rg. first_sheet (p_workbook p) = Some (name, ws) \<and> ref ws = Some rg \<and>
     p_rows p = collect_rows ws rg name (sourceColIndex (resolveColumnsForSingleSheet ws))
                  (targetColIndex (resolveColumnsForSingleSheet ws)) \<and>
     p_unique p = unique_texts (p_rows p)"
  using assms unfolding prepare_def Let_def
  by (auto split: sum.splits option.splits prod.splits)

lemma first_sheet_Some:
  "first_sheet wb = Some (name, ws) \<Longrightarrow> name = hd (SheetNames wb) \<and> Sheets wb name = Some ws"
  by (auto simp: first_sheet_def split: list.splits option.splits)

lemma processFile_loop_done:
  assumes "prepare en fileUrl jobId = Inr p"
    and "translate_loop en (p_customHeader p) (p_unique p) 0 init_state = (None, st)"
  shows "out_requests (processFile en fileUrl jobId) = requests st"
    and "out_progress (processFile en fileUrl jobId) = progress_updates st"
    and "out_workbook (processFile en fileUrl jobId) = Some (writer (array_prototype_names en) (cache st) (p_rows p) (p_workbook p))"
  using assms
  by (simp_all add: processFile_def rejected_def Let_def split: option.splits sum.splits)

lemma collect_rows_distinct: "distinct (map row (collect_rows ws rg name src tgt))"
  unfolding collect_rows_def by (simp add: rows_of_concat)

text \<open>
  Claim C7, as amended. Once the rows are collected, the unique list has no duplicates
  and holds exactly the originals of the rows, and every unique string lies in exactly
  one batch. The request for a batch is the fixed text of the prompt followed by the
  strings of the batch, one per line. In every run the requests sent are the requests of
  the first \<open>m\<close> batches, one each. If the loop completes, the requests sent are those of
  all the batches, and after the writer step the target cell of every row holds a cell of
  type \<^verbatim>\<open>s\<close> with the value \<^verbatim>\<open>cache[original] || ""\<close>, so that two rows with the same original
  hold the same cell.
\<close>

theorem C7_dedup_and_propagation:
  assumes "prepare en fileUrl jobId = Inr p"
  shows "distinct (p_unique p)
    \<and> set (p_unique p) = original ` set (p_rows p)
    \<and> (\<forall>s \<in> set (p_unique p). \<exists>!k. k < batch_count (p_unique p) \<and> s \<in> set (batch_of (p_unique p) k))
    \<and> (\<forall>k. build_prompt (p_customHeader p) (batch_of (p_unique p) k) =
             prompt_head (p_customHeader p) @ join nl (batch_of (p_unique p) k))
    \<and> (\<exists>m \<le> batch_count (p_unique p).
          out_requests (processFile en fileUrl jobId) =
            map (\<lambda>k. build_prompt (p_customHeader p) (batch_of (p_unique p) k)) [0..<m])
    \<and> (\<forall>st. translate_loop en (p_customHeader p) (p_unique p) 0 init_state = (None, st) \<longrightarrow>
          out_requests (processFile en fileUrl jobId) =
            map (\<lambda>k. build_prompt (p_customHeader p) (batch_of (p_unique p) k))
              [0..<batch_count (p_unique p)]
          \<and> (\<exists>wb' ws'. out_workbook (processFile en fileUrl jobId) = Some wb' \<and>
                Sheets wb' (hd (SheetNames (p_workbook p))) = Some ws' \<and>
                (\<forall>a \<in> set (p_rows p).
                   cells ws' (item_targetColIndex a, row a) =
                     Some \<lparr>t = ''s'',
                           v = js_or (obj_get (array_prototype_names en) (cache st) (original a))
                                 (JStr [])\<rparr>) \<and>
                (\<forall>a \<in> set (p_rows p). \<forall>b \<in> set (p_rows p). original a = original b \<longrightarrow>
                   cells ws' (item_targetColIndex a, row a) =
                     cells ws' (item_targetColIndex b, row b))))"
proof -
  let ?ul = "p_unique p" and ?ch = "p_customHeader p" and ?rows = "p_rows p"
  let ?ap = "array_prototype_names en"
  from prepare_Inr [OF assms] obtain name ws rg where
    fs: "first_sheet (p_workbook p) = Some (name, ws)" and
    rows: "?rows = collect_rows ws rg name (sourceColIndex (resolveColumnsForSingleSheet ws))
                  (targetColIndex (resolveColumnsForSingleSheet ws))" and
    ul: "?ul = unique_texts ?rows"
    by blast
  have name: "name = hd (SheetNames (p_workbook p))"
    by (rule first_sheet_Some [OF fs, THEN conjunct1])
  have sheet: "Sheets (p_workbook p) name = Some ws"
    by (rule first_sheet_Some [OF fs, THEN conjunct2])
  have d: "distinct ?ul" and su: "set ?ul = original ` set ?rows"
    by (simp_all add: ul unique_texts_props)
  have one: "\<forall>s \<in> set ?ul. \<exists>!k. k < batch_count ?ul \<and> s \<in> set (batch_of ?ul k)"
    using one_batch [OF d] by blast
  have pj: "\<forall>k. build_prompt ?ch (batch_of ?ul k) = prompt_head ?ch @ join nl (batch_of ?ul k)"
    by (simp add: prompt_join)
  have pre: "\<exists>m \<le> batch_count ?ul.
          out_requests (processFile en fileUrl jobId) =
            map (\<lambda>k. build_prompt ?ch (batch_of ?ul k)) [0..<m]"
  proof -
    obtain r st where l: "translate_loop en ?ch ?ul 0 init_state = (r, st)"
      by (cases "translate_loop en ?ch ?ul 0 init_state")
    from loop_requests [OF l] processFile_requests [OF assms] l show ?thesis by simp
  qed
  have rows_name: "\<And>a. a \<in> set ?rows \<Longrightarrow> sheetName a = name"
    using rows_items [of _ ws name _ _ "[Suc (s_r rg) ..< Suc (e_r rg)]"]
    unfolding rows collect_rows_def by blast
  have rows_inj: "inj_on row (set ?rows)"
    using collect_rows_distinct [of ws rg name] unfolding rows by (simp add: distinct_map)
  have run: "out_requests (processFile en fileUrl jobId) =
            map (\<lambda>k. build_prompt ?ch (batch_of ?ul k)) [0..<batch_count ?ul]
          \<and> (\<exists>wb' ws'. out_workbook (processFile en fileUrl jobId) = Some wb' \<and>
                Sheets wb' (hd (SheetNames (p_workbook p))) = Some ws' \<and>
                (\<forall>a \<in> set ?rows.
                   cells ws' (item_targetColIndex a, row a) =
                     Some \<lparr>t = ''s'', v = js_or (obj_get ?ap (cache st) (original a)) (JStr [])\<rparr>) \<and>
                (\<forall>a \<in> set ?rows. \<forall>b \<in> set ?rows. original a = original b \<longrightarrow>
                   cells ws' (item_targetColIndex a, row a) =
                     cells ws' (item_targetColIndex b, row b)))"
    if loop: "translate_loop en ?ch ?ul 0 init_state = (None, st)" for st
  proof -
    let ?wb' = "writer ?ap (cache st) ?rows (p_workbook p)"
    let ?ws' = "ws\<lparr>cells := fold (put_cell name) (assign_translations ?ap (cache st) ?rows) (cells ws)\<rparr>"
    from before_batch_requests [OF loop_complete0 [OF loop]] processFile_loop_done(1) [OF assms loop]
    have req: "out_requests (processFile en fileUrl jobId) =
            map (\<lambda>k. build_prompt ?ch (batch_of ?ul k)) [0..<batch_count ?ul]" by simp
    have ow: "out_workbook (processFile en fileUrl jobId) = Some ?wb'"
      by (rule processFile_loop_done(3) [OF assms loop])
    have sh0: "Sheets ?wb' name = Some ?ws'"
      using sheet by (simp add: writer_sheet)
    have sh: "Sheets ?wb' (hd (SheetNames (p_workbook p))) = Some ?ws'"
      unfolding name [symmetric] by (rule sh0)
    have cellv: "cells ?ws' (item_targetColIndex a, row a) =
        Some \<lparr>t = ''s'', v = js_or (obj_get ?ap (cache st) (original a)) (JStr [])\<rparr>"
      if a: "a \<in> set ?rows" for a
    proof -
      from a sheet rows_name [OF a] have "Sheets (p_workbook p) (sheetName a) = Some ws" by simp
      from writer_cell [OF a this, of ?ap "cache st"] obtain ws2 a' where
        w: "Sheets ?wb' (sheetName a) = Some ws2" "a' \<in> set ?rows" "row a' = row a"
          "cells ws2 (item_targetColIndex a, row a) =
             Some \<lparr>t = ''s'', v = js_or (obj_get ?ap (cache st) (original a')) (JStr [])\<rparr>"
        by blast
      from w(2,3) a rows_inj have "a' = a" by (auto dest: inj_onD)
      moreover from w(1) sh0 rows_name [OF a] have "ws2 = ?ws'" by simp
      ultimately show ?thesis using w(4) by simp
    qed
    have c1: "\<forall>a \<in> set ?rows.
        cells ?ws' (item_targetColIndex a, row a) =
          Some \<lparr>t = ''s'', v = js_or (obj_get ?ap (cache st) (original a)) (JStr [])\<rparr>"
      using cellv by blast
    have c2: "\<forall>a \<in> set ?rows. \<forall>b \<in> set ?rows. original a = original b \<longrightarrow>
        cells ?ws' (item_targetColIndex a, row a) = cells ?ws' (item_targetColIndex b, row b)"
      using cellv by simp
    from req ow sh c1 c2 show ?thesis by blast
  qed
  from d su one pj pre run show ?thesis by blast
qed

lemma batch_step_ok:
  assumes "translateBatch en (i div batchSize) (build_prompt ch (take batchSize (drop i ul))) = Inr xs"
    and "update_cache (array_prototype_names en) xs (cache st) = Inr c"
  shows "batch_step en ch ul i st =
     (None, st\<lparr>requests := requests st @ [build_prompt ch (take batchSize (drop i ul))],
               cache := c,
               progress_updates := progress_updates st @
                 [progress_of (min (length ul) (i + batchSize)) (length ul)]\<rparr>)"
  using assms by (simp add: batch_step_def Let_def)

lemma good_translate: "translateBatch good_env k prompt = Inr good_parsed"
proof -
  have "strip_trailing_commas (the (match_array (trim (strip_think
      (''<think>[x]</think> Here: '' @ good_reply @ '' done''))))) = good_json"
    by code_simp
  moreover have "match_array (trim (strip_think
      (''<think>[x]</think> Here: '' @ good_reply @ '' done''))) \<noteq> None"
    by code_simp
  ultimately show ?thesis
    by (auto simp add: translateBatch_def good_env_def demo_env_def Let_def)
qed

lemma good_update:
  "update_cache ap good_parsed empty_object =
     Inr \<lparr>own = [''Hello'' \<mapsto> JStr ''Hei'', ''Bye'' \<mapsto> JStr ''Ha det''], proto = object_prototype\<rparr>"
proof -
  have t1: "trim ''Hello '' = ''Hello''" by code_simp
  have t2: "trim ''Bye'' = ''Bye''" by code_simp
  show ?thesis by (simp add: good_parsed_def t1 t2 obj_set_new empty_object_def)
qed

lemma good_loop:
  "translate_loop good_env [] [''Hello'', ''Bye''] 0 init_state =
     (None, \<lparr>cache = \<lparr>own = [''Hello'' \<mapsto> JStr ''Hei'', ''Bye'' \<mapsto> JStr ''Ha det''],
                      proto = object_prototype\<rparr>,
             requests = [build_prompt [] [''Hello'', ''Bye'']], progress_updates = [100]\<rparr>)"
proof -
  let ?ul = "[''Hello'', ''Bye'']"
  let ?st = "\<lparr>cache = \<lparr>own = [''Hello'' \<mapsto> JStr ''Hei'', ''Bye'' \<mapsto> JStr ''Ha det''],
                      proto = object_prototype\<rparr>,
             requests = [build_prompt [] ?ul], progress_updates = [100]\<rparr>"
  have tb: "translateBatch good_env (0 div batchSize)
      (build_prompt [] (take batchSize (drop 0 ?ul))) = Inr good_parsed"
    by (rule good_translate)
  have uc: "update_cache (array_prototype_names good_env) good_parsed (cache init_state) =
      Inr \<lparr>own = [''Hello'' \<mapsto> JStr ''Hei'', ''Bye'' \<mapsto> JStr ''Ha det''], proto = object_prototype\<rparr>"
    by (simp add: init_state_def good_update)
  have p: "progress_of (min (length ?ul) (0 + batchSize)) (length ?ul) = 100"
    using progress_of_full [of "Suc (Suc 0)"] by (simp add: batchSize_def)
  have s: "batch_step good_env [] ?ul 0 init_state = (None, ?st)"
    using batch_step_ok [OF tb uc] p by (simp add: init_state_def batchSize_def)
  have "translate_loop good_env [] ?ul 0 init_state = translate_loop good_env [] ?ul (0 + batchSize) ?st"
    using loop_step [of 0 ?ul good_env "[]" init_state] s by simp
  also have "\<dots> = (None, ?st)" by (rule loop_done) (simp add: batchSize_def)
  finally show ?thesis .
qed

lemma sample_prompt_eq: "build_prompt [] [''Hello'', ''Bye''] = sample_prompt"
  by code_simp

theorem C7_dedup_and_propagation_witness:
  "out_requests (processFile good_env ''gs://bucket/in.xlsx'' ''job-1'') = [sample_prompt]
   \<and> cell_after (processFile good_env ''gs://bucket/in.xlsx'' ''job-1'') ''Sheet1'' (3, 1) =
        Some \<lparr>t = ''s'', v = JStr ''Hei''\<rparr>
   \<and> cell_after (processFile good_env ''gs://bucket/in.xlsx'' ''job-1'') ''Sheet1'' (3, 2) =
        Some \<lparr>t = ''s'', v = JStr ''Hei''\<rparr>
   \<and> cell_after (processFile good_env ''gs://bucket/in.xlsx'' ''job-1'') ''Sheet1'' (3, 3) =
        Some \<lparr>t = ''s'', v = JStr ''Ha det''\<rparr>"
proof -
  let ?rows = "collect_rows demo_sheet \<lparr>s_c = 0, s_r = 0, e_c = 3, e_r = 3\<rparr> ''Sheet1'' (Suc 0) 3"
  let ?p = "\<lparr>p_fileName = ''in.xlsx'', p_customHeader = [], p_workbook = demo_workbook demo_sheet,
          p_rows = ?rows, p_unique = [''Hello'', ''Bye'']\<rparr>"
  let ?c = "\<lparr>own = [''Hello'' \<mapsto> JStr ''Hei'', ''Bye'' \<mapsto> JStr ''Ha det''], proto = object_prototype\<rparr>"
  let ?st = "\<lparr>cache = ?c, requests = [build_prompt [] [''Hello'', ''Bye'']], progress_updates = [100]\<rparr>"
  let ?a1 = "\<lparr>sheetName = ''Sheet1'', row = 1, original = ''Hello'', item_targetColIndex = 3, translated = JUndefined\<rparr>"
  let ?a2 = "\<lparr>sheetName = ''Sheet1'', row = 2, original = ''Hello'', item_targetColIndex = 3, translated = JUndefined\<rparr>"
  let ?a3 = "\<lparr>sheetName = ''Sheet1'', row = 3, original = ''Bye'', item_targetColIndex = 3, translated = JUndefined\<rparr>"
  let ?out = "processFile good_env ''gs://bucket/in.xlsx'' ''job-1''"
  have prep: "prepare good_env ''gs://bucket/in.xlsx'' ''job-1'' = Inr ?p"
    unfolding good_env_def by (rule demo_prepare)
  have loop: "translate_loop good_env (p_customHeader ?p) (p_unique ?p) 0 init_state = (None, ?st)"
    using good_loop by simp
  have bc: "[0..<batch_count [''Hello'', ''Bye'']] = [0]"
    by (simp add: batch_count_def batchSize_def)
  have b0: "batch_of [''Hello'', ''Bye''] 0 = [''Hello'', ''Bye'']"
    by (simp add: batch_of_def batchSize_def)
  have hd: "hd (SheetNames (demo_workbook demo_sheet)) = ''Sheet1''"
    by (simp add: demo_workbook_def)
  have mem: "?a1 \<in> set ?rows" "?a2 \<in> set ?rows" "?a3 \<in> set ?rows"
    by (simp_all add: demo_rows)
  from C7_dedup_and_propagation [OF prep] loop
  have req: "out_requests ?out =
      map (\<lambda>k. build_prompt (p_customHeader ?p) (batch_of (p_unique ?p) k)) [0..<batch_count (p_unique ?p)]"
    and "\<exists>wb' ws'. out_workbook ?out = Some wb' \<and>
                Sheets wb' (hd (SheetNames (p_workbook ?p))) = Some ws' \<and>
                (\<forall>a \<in> set (p_rows ?p).
                   cells ws' (item_targetColIndex a, row a) =
                     Some \<lparr>t = ''s'',
                           v = js_or (obj_get (array_prototype_names good_env) (cache ?st) (original a))
                                 (JStr [])\<rparr>)"
    by blast+
  then obtain wb' ws' where w: "out_workbook ?out = Some wb'" "Sheets wb' ''Sheet1'' = Some ws'"
    "\<forall>a \<in> set ?rows. cells ws' (item_targetColIndex a, row a) =
       Some \<lparr>t = ''s'', v = js_or (obj_get (array_prototype_names good_env) ?c (original a)) (JStr [])\<rparr>"
    unfolding hd [symmetric] by auto
  have v1: "js_or (obj_get (array_prototype_names good_env) ?c ''Hello'') (JStr []) = JStr ''Hei''"
    by (simp add: obj_get_def js_or_def)
  have v3: "js_or (obj_get (array_prototype_names good_env) ?c ''Bye'') (JStr []) = JStr ''Ha det''"
    by (simp add: obj_get_def js_or_def)
  from w(3) mem(1) v1 have c1: "cells ws' (3, 1) = Some \<lparr>t = ''s'', v = JStr ''Hei''\<rparr>" by fastforce
  from w(3) mem(2) v1 have c2: "cells ws' (3, 2) = Some \<lparr>t = ''s'', v = JStr ''Hei''\<rparr>" by fastforce
  from w(3) mem(3) v3 have c3: "cells ws' (3, 3) = Some \<lparr>t = ''s'', v = JStr ''Ha det''\<rparr>" by fastforce
  from req bc b0 have r: "out_requests ?out = [sample_prompt]" by (simp add: sample_prompt_eq)
  from r w(1,2) c1 c2 c3 show ?thesis by (simp add: cell_after_def)
qed

text \<open>
  The claim as stated fails: on the sheet with 101 different source strings, one of them
  twice, and a model that answers with bare numbers, the unique list holds the strings
  \<^verbatim>\<open>001\<close> to \<^verbatim>\<open>101\<close>, the only request sent is the one for the first hundred, and the job
  ends with status \<^verbatim>\<open>error\<close>: the string \<^verbatim>\<open>101\<close> is in no request.
\<close>

theorem C7_counterexample:
  "unique_of wide_env ''gs://bucket/in.xlsx'' ''job-1'' = Some (map label [1..<102])
   \<and> out_requests (processFile wide_env ''gs://bucket/in.xlsx'' ''job-1'') =
        [build_prompt [] (map label [1..<101])]
   \<and> label 101 \<notin> set (map label [1..<101])
   \<and> final_status wide_env ''gs://bucket/in.xlsx'' ''job-1'' = ''error''"
  by code_simp

section \<open>The cache after the loop\<close>

lemma keys_list_Cons:
  "member_of x ''key'' = Inr (JStr s) \<Longrightarrow> keys_list (x # xs) = trim s # keys_list xs"
  by (simp add: keys_list_def)

lemma update_cache_dom:
  "update_cache ap xs c = Inr c' \<Longrightarrow>
     dom (own c') - {''__proto__''} = (dom (own c) \<union> set (keys_list xs)) - {''__proto__''}"
proof (induction xs arbitrary: c)
  case Nil
  then show ?case by (simp add: keys_list_def)
next
  case (Cons x xs)
  from Cons.prems obtain s y where k: "member_of x ''key'' = Inr (JStr s)"
    and u: "update_cache ap xs (obj_set ap c (trim s) y) = Inr c'"
    by (auto split: sum.splits jsval.splits)
  from Cons.IH [OF u]
  have "dom (own c') - {''__proto__''} =
      (dom (own (obj_set ap c (trim s) y)) - {''__proto__''}) \<union> (set (keys_list xs) - {''__proto__''})"
    by blast
  also have "\<dots> = (insert (trim s) (dom (own c)) - {''__proto__''}) \<union> (set (keys_list xs) - {''__proto__''})"
    by (simp only: obj_set_dom)
  also have "\<dots> = (dom (own c) \<union> set (keys_list (x # xs))) - {''__proto__''}"
    unfolding keys_list_Cons [OF k] by auto
  finally show ?case .
qed

lemma mark_empty_dom:
  "dom (own (mark_empty ap b c)) - {''__proto__''} = (dom (own c) \<union> set b) - {''__proto__''}"
proof (rule set_eqI)
  fix s
  show "s \<in> dom (own (mark_empty ap b c)) - {''__proto__''} \<longleftrightarrow>
      s \<in> (dom (own c) \<union> set b) - {''__proto__''}"
  proof (cases "s = ''__proto__''")
    case True
    then show ?thesis by simp
  next
    case False
    from mark_empty_own [OF False, of ap b c] False show ?thesis by (auto simp: dom_def)
  qed
qed

lemma update_cache_ok:
  "\<forall>x \<in> set xs. \<exists>s. member_of x ''key'' = Inr (JStr s) \<Longrightarrow> \<exists>c'. update_cache ap xs c = Inr c'"
proof (induction xs arbitrary: c)
  case Nil
  show ?case by simp
next
  case (Cons x xs)
  from Cons.prems obtain s where k: "member_of x ''key'' = Inr (JStr s)" by auto
  from member_of_value_Inr [OF k] obtain z where z: "member_of x ''value'' = Inr z" by blast
  from Cons.prems have "\<forall>x \<in> set xs. \<exists>s. member_of x ''key'' = Inr (JStr s)" by simp
  from Cons.IH [OF this, of "obj_set ap c (trim s) z"] obtain c' where
    "update_cache ap xs (obj_set ap c (trim s) z) = Inr c'" by blast
  with k z have "update_cache ap (x # xs) c = Inr c'" by simp
  then show ?case by blast
qed

lemma batch_step_None:
  assumes "batch_step en ch ul (k * batchSize) st = (None, st')"
  shows "(\<exists>err. translateBatch en k (build_prompt ch (batch_of ul k)) = Inl err \<and>
            cache st' = mark_empty (array_prototype_names en) (batch_of ul k) (cache st) \<and>
            progress_updates st' = progress_updates st)
       \<or> (\<exists>xs. translateBatch en k (build_prompt ch (batch_of ul k)) = Inr xs \<and>
            update_cache (array_prototype_names en) xs (cache st) = Inr (cache st') \<and>
            progress_updates st' = progress_updates st @
              [progress_of (min (length ul) (k * batchSize + batchSize)) (length ul)])"
proof -
  have d: "k * batchSize div batchSize = k" by (simp add: batchSize_def)
  show ?thesis
    using assms unfolding batch_step_def Let_def d batch_of_def
    by (auto split: sum.splits)
qed

lemma before_batch_dom:
  "before_batch en ch ul k = Inr st \<Longrightarrow>
     dom (own (cache st)) - {''__proto__''} =
       (\<Union>j \<in> {..<k}. set (batch_keys en ch ul j)) - {''__proto__''}"
proof (induction k arbitrary: st)
  case 0
  then show ?case by (auto simp: init_state_def empty_object_def)
next
  case (Suc k)
  let ?ap = "array_prototype_names en"
  from before_batch_Suc_Inr [OF Suc.prems] obtain st0 where
    b: "before_batch en ch ul k = Inr st0" and s: "batch_step en ch ul (k * batchSize) st0 = (None, st)"
    by blast
  have "dom (own (cache st)) - {''__proto__''} =
      (dom (own (cache st0)) \<union> set (batch_keys en ch ul k)) - {''__proto__''}"
    using batch_step_None [OF s]
  proof
    assume "\<exists>err. translateBatch en k (build_prompt ch (batch_of ul k)) = Inl err \<and>
            cache st = mark_empty ?ap (batch_of ul k) (cache st0) \<and>
            progress_updates st = progress_updates st0"
    then obtain err where e: "translateBatch en k (build_prompt ch (batch_of ul k)) = Inl err"
      and c: "cache st = mark_empty ?ap (batch_of ul k) (cache st0)" by blast
    from e have "batch_keys en ch ul k = batch_of ul k" by (simp add: batch_keys_def)
    with c mark_empty_dom [of ?ap "batch_of ul k" "cache st0"] show ?thesis by simp
  next
    assume "\<exists>xs. translateBatch en k (build_prompt ch (batch_of ul k)) = Inr xs \<and>
            update_cache ?ap xs (cache st0) = Inr (cache st) \<and>
            progress_updates st = progress_updates st0 @
              [progress_of (min (length ul) (k * batchSize + batchSize)) (length ul)]"
    then obtain xs where e: "translateBatch en k (build_prompt ch (batch_of ul k)) = Inr xs"
      and u: "update_cache ?ap xs (cache st0) = Inr (cache st)" by blast
    from update_cache_dom [OF u] e show ?thesis by (simp add: batch_keys_def)
  qed
  also have "\<dots> = (dom (own (cache st0)) - {''__proto__''}) \<union>
      (set (batch_keys en ch ul k) - {''__proto__''})" by blast
  also have "\<dots> = ((\<Union>j \<in> {..<k}. set (batch_keys en ch ul j)) - {''__proto__''}) \<union>
      (set (batch_keys en ch ul k) - {''__proto__''})" by (simp only: Suc.IH [OF b])
  also have "\<dots> = (\<Union>j \<in> {..<Suc k}. set (batch_keys en ch ul j)) - {''__proto__''}"
    by (auto simp: less_Suc_eq)
  finally show ?case .
qed

text \<open>
  Claim C1, as amended. When the loop completes, and so by the time the writer step
  begins, the translation cache has an entry of its own for a string other than
  \<^verbatim>\<open>__proto__\<close> exactly when some batch wrote that key: a batch whose translation failed
  writes its own strings, a batch whose translation succeeded writes the trimmed keys of
  the returned elements. In particular every such string of a failed batch has an entry,
  while a string that a successful batch omits or renames has an entry only if some batch
  supplies that key.
\<close>

theorem C1_cache_entries:
  assumes "translate_loop en ch ul 0 init_state = (None, st)"
  shows "(\<forall>s. s \<noteq> ''__proto__'' \<longrightarrow>
            (s \<in> dom (own (cache st)) \<longleftrightarrow> (\<exists>k < batch_count ul. s \<in> set (batch_keys en ch ul k))))
     \<and> (\<forall>k < batch_count ul. \<forall>err. translateBatch en k (build_prompt ch (batch_of ul k)) = Inl err
            \<longrightarrow> batch_keys en ch ul k = batch_of ul k \<and>
                set (batch_of ul k) - {''__proto__''} \<subseteq> dom (own (cache st)))
     \<and> (\<forall>k < batch_count ul. \<forall>xs. translateBatch en k (build_prompt ch (batch_of ul k)) = Inr xs
            \<longrightarrow> batch_keys en ch ul k = keys_list xs \<and>
                (\<forall>x s. x \<in> set xs \<and> member_of x ''key'' = Inr (JStr s) \<and> trim s \<noteq> ''__proto__''
                    \<longrightarrow> trim s \<in> dom (own (cache st))))"
proof -
  have d: "dom (own (cache st)) - {''__proto__''} =
      (\<Union>k \<in> {..<batch_count ul}. set (batch_keys en ch ul k)) - {''__proto__''}"
    using before_batch_dom [OF loop_complete0 [OF assms]] .
  have a: "s \<in> dom (own (cache st)) \<longleftrightarrow> (\<exists>k < batch_count ul. s \<in> set (batch_keys en ch ul k))"
    if "s \<noteq> ''__proto__''" for s
  proof -
    from that have "s \<in> dom (own (cache st)) \<longleftrightarrow> s \<in> dom (own (cache st)) - {''__proto__''}" by simp
    also have "\<dots> \<longleftrightarrow> s \<in> (\<Union>k \<in> {..<batch_count ul}. set (batch_keys en ch ul k)) - {''__proto__''}"
      by (simp only: d)
    also from that have "\<dots> \<longleftrightarrow> (\<exists>k < batch_count ul. s \<in> set (batch_keys en ch ul k))" by auto
    finally show ?thesis .
  qed
  have f: "batch_keys en ch ul k = batch_of ul k \<and>
      set (batch_of ul k) - {''__proto__''} \<subseteq> dom (own (cache st))"
    if "k < batch_count ul" "translateBatch en k (build_prompt ch (batch_of ul k)) = Inl err" for k err
  proof -
    from that(2) have bk: "batch_keys en ch ul k = batch_of ul k" by (simp add: batch_keys_def)
    have "s \<in> dom (own (cache st))" if s: "s \<in> set (batch_of ul k)" "s \<noteq> ''__proto__''" for s
    proof -
      from s(1) bk \<open>k < batch_count ul\<close>
      have "\<exists>k < batch_count ul. s \<in> set (batch_keys en ch ul k)" by auto
      with a [OF s(2)] show ?thesis by simp
    qed
    then have "set (batch_of ul k) - {''__proto__''} \<subseteq> dom (own (cache st))" by blast
    with bk show ?thesis by simp
  qed
  have g: "batch_keys en ch ul k = keys_list xs \<and>
      (\<forall>x s. x \<in> set xs \<and> member_of x ''key'' = Inr (JStr s) \<and> trim s \<noteq> ''__proto__''
          \<longrightarrow> trim s \<in> dom (own (cache st)))"
    if "k < batch_count ul" "translateBatch en k (build_prompt ch (batch_of ul k)) = Inr xs" for k xs
  proof -
    from that(2) have bk: "batch_keys en ch ul k = keys_list xs" by (simp add: batch_keys_def)
    have "trim s \<in> dom (own (cache st))"
      if x: "x \<in> set xs" "member_of x ''key'' = Inr (JStr s)" "trim s \<noteq> ''__proto__''" for x s
    proof -
      from x(1,2) have "trim s \<in> set (keys_list xs)" by (force simp: keys_list_def)
      with bk \<open>k < batch_count ul\<close>
      have "\<exists>k < batch_count ul. trim s \<in> set (batch_keys en ch ul k)" by auto
      with a [OF x(3)] show ?thesis by simp
    qed
    with bk show ?thesis by blast
  qed
  have A: "\<forall>s. s \<noteq> ''__proto__'' \<longrightarrow>
            (s \<in> dom (own (cache st)) \<longleftrightarrow> (\<exists>k < batch_count ul. s \<in> set (batch_keys en ch ul k)))"
    using a by simp
  have F: "\<forall>k < batch_count ul. \<forall>err. translateBatch en k (build_prompt ch (batch_of ul k)) = Inl err
            \<longrightarrow> batch_keys en ch ul k = batch_of ul k \<and>
                set (batch_of ul k) - {''__proto__''} \<subseteq> dom (own (cache st))"
    using f by (intro allI impI)
  have G: "\<forall>k < batch_count ul. \<forall>xs. translateBatch en k (build_prompt ch (batch_of ul k)) = Inr xs
            \<longrightarrow> batch_keys en ch ul k = keys_list xs \<and>
                (\<forall>x s. x \<in> set xs \<and> member_of x ''key'' = Inr (JStr s) \<and> trim s \<noteq> ''__proto__''
                    \<longrightarrow> trim s \<in> dom (own (cache st)))"
    using g by (intro allI impI)
  show ?thesis by (rule conjI [OF A conjI [OF F G]])
qed

lemma failing_translate: "translateBatch failing_env k prompt = Inl (Error ''503 Service Unavailable'')"
  by (simp add: translateBatch_def failing_env_def demo_env_def failing_reply_def)

lemma failing_loop:
  "translate_loop failing_env [] [''Hello'', ''Bye''] 0 init_state =
     (None, \<lparr>cache = \<lparr>own = [''Hello'' \<mapsto> JStr [], ''Bye'' \<mapsto> JStr []], proto = object_prototype\<rparr>,
             requests = [build_prompt [] [''Hello'', ''Bye'']], progress_updates = []\<rparr>)"
proof -
  let ?st = "\<lparr>cache = \<lparr>own = [''Hello'' \<mapsto> JStr [], ''Bye'' \<mapsto> JStr []], proto = object_prototype\<rparr>,
             requests = [build_prompt [] [''Hello'', ''Bye'']], progress_updates = []\<rparr>"
  have s: "batch_step failing_env [] [''Hello'', ''Bye''] 0 init_state = (None, ?st)"
    by (simp add: batch_step_def failing_translate Let_def batchSize_def mark_empty_def init_state_def
        obj_set_new empty_object_def)
  have "translate_loop failing_env [] [''Hello'', ''Bye''] 0 init_state =
      translate_loop failing_env [] [''Hello'', ''Bye''] (0 + batchSize) ?st"
    using loop_step [of 0 "[''Hello'', ''Bye'']" failing_env "[]" init_state] s by simp
  also have "\<dots> = (None, ?st)" by (rule loop_done) (simp add: batchSize_def)
  finally show ?thesis .
qed

theorem C1_cache_entries_witness:
  "(\<exists>st. translate_loop good_env [] [''Hello'', ''Bye''] 0 init_state = (None, st)
      \<and> ''Hello'' \<in> dom (own (cache st)) \<and> ''Bye'' \<in> dom (own (cache st))
      \<and> ''Hello '' \<notin> dom (own (cache st)) \<and> ''Hei'' \<notin> dom (own (cache st)))
   \<and> (\<exists>st. translate_loop failing_env [] [''Hello'', ''Bye''] 0 init_state = (None, st)
      \<and> {''Hello'', ''Bye''} \<subseteq> dom (own (cache st)))"
proof -
  have bc: "batch_count [''Hello'', ''Bye''] = 1" by (simp add: batch_count_def batchSize_def)
  have t1: "trim ''Hello '' = ''Hello''" by code_simp
  have t2: "trim ''Bye'' = ''Bye''" by code_simp
  have bk: "batch_keys good_env [] [''Hello'', ''Bye''] 0 = [''Hello'', ''Bye'']"
    by (simp add: batch_keys_def good_translate keys_list_def good_parsed_def t1 t2)
  note g = C1_cache_entries [OF good_loop, THEN conjunct1]
  from g [rule_format, of "''Hello''"] bc bk g [rule_format, of "''Bye''"]
    g [rule_format, of "''Hello ''"] g [rule_format, of "''Hei''"]
  have 1: "\<exists>st. translate_loop good_env [] [''Hello'', ''Bye''] 0 init_state = (None, st)
      \<and> ''Hello'' \<in> dom (own (cache st)) \<and> ''Bye'' \<in> dom (own (cache st))
      \<and> ''Hello '' \<notin> dom (own (cache st)) \<and> ''Hei'' \<notin> dom (own (cache st))"
    using good_loop by simp
  have b0: "batch_of [''Hello'', ''Bye''] 0 = [''Hello'', ''Bye'']"
    by (simp add: batch_of_def batchSize_def)
  note f = C1_cache_entries [OF failing_loop, THEN conjunct2, THEN conjunct1]
  from f [rule_format, of 0, OF _ failing_translate] bc b0
  have 2: "\<exists>st. translate_loop failing_env [] [''Hello'', ''Bye''] 0 init_state = (None, st)
      \<and> {''Hello'', ''Bye''} \<subseteq> dom (own (cache st))"
    using failing_loop by simp
  from 1 2 show ?thesis by (rule conjI)
qed

lemma empty_reply_translate: "translateBatch empty_reply_env k prompt = Inr []"
proof -
  have 1: "strip_think ''[]'' = ''[]''" by code_simp
  have 2: "trim ''[]'' = ''[]''" by code_simp
  have 3: "match_array ''[]'' = Some ''[]''" by code_simp
  have 4: "strip_trailing_commas ''[]'' = ''[]''" by code_simp
  show ?thesis
    by (simp add: translateBatch_def empty_reply_env_def demo_env_def 1 2 3 4)
qed

lemma empty_reply_loop:
  "translate_loop empty_reply_env [] [''Hello'', ''Bye''] 0 init_state =
     (None, \<lparr>cache = empty_object, requests = [build_prompt [] [''Hello'', ''Bye'']],
             progress_updates = [100]\<rparr>)"
proof -
  let ?ul = "[''Hello'', ''Bye'']"
  let ?st = "\<lparr>cache = empty_object, requests = [build_prompt [] ?ul], progress_updates = [100]\<rparr>"
  have tb: "translateBatch empty_reply_env (0 div batchSize)
      (build_prompt [] (take batchSize (drop 0 ?ul))) = Inr []"
    by (rule empty_reply_translate)
  have uc: "update_cache (array_prototype_names empty_reply_env) [] (cache init_state) = Inr empty_object"
    by (simp add: init_state_def)
  have p: "progress_of (min (length ?ul) (0 + batchSize)) (length ?ul) = 100"
    using progress_of_full [of "Suc (Suc 0)"] by (simp add: batchSize_def)
  have s: "batch_step empty_reply_env [] ?ul 0 init_state = (None, ?st)"
    using batch_step_ok [OF tb uc] p by (simp add: init_state_def batchSize_def)
  have "translate_loop empty_reply_env [] ?ul 0 init_state =
      translate_loop empty_reply_env [] ?ul (0 + batchSize) ?st"
    using loop_step [of 0 ?ul empty_reply_env "[]" init_state] s by simp
  also have "\<dots> = (None, ?st)" by (rule loop_done) (simp add: batchSize_def)
  finally show ?thesis .
qed

text \<open>
  The claim as stated fails: with the sample sheet, where \<^verbatim>\<open>Hello\<close> is the original of two
  rows, and a model that answers with the empty array, the translation of the only batch
  succeeds, the loop completes and the cache has no entry for \<^verbatim>\<open>Hello\<close>: reading it gives
  \<^verbatim>\<open>undefined\<close>.
\<close>

theorem C1_counterexample:
  "unique_of empty_reply_env ''gs://bucket/in.xlsx'' ''job-1'' = Some [''Hello'', ''Bye'']
   \<and> translateBatch empty_reply_env 0 (build_prompt [] [''Hello'', ''Bye'']) = Inr []
   \<and> fst (translate_loop empty_reply_env [] [''Hello'', ''Bye''] 0 init_state) = None
   \<and> own (cache (snd (translate_loop empty_reply_env [] [''Hello'', ''Bye''] 0 init_state))) ''Hello''
        = None
   \<and> obj_get (array_prototype_names empty_reply_env)
        (cache (snd (translate_loop empty_reply_env [] [''Hello'', ''Bye''] 0 init_state))) ''Hello''
        = JUndefined"
proof -
  have u: "unique_of empty_reply_env ''gs://bucket/in.xlsx'' ''job-1'' = Some [''Hello'', ''Bye'']"
    by code_simp
  have g: "obj_get (array_prototype_names empty_reply_env) empty_object ''Hello'' = JUndefined"
    by code_simp
  show ?thesis
    by (simp add: u empty_reply_translate empty_reply_loop g) (simp add: empty_object_def)
qed

section \<open>Progress reports\<close>

lemma before_batch_progress:
  "before_batch en ch ul k = Inr st \<Longrightarrow> k \<le> batch_count ul \<Longrightarrow>
     sorted (progress_updates st) \<and>
     (\<forall>x \<in> set (progress_updates st). x \<le> progress_of (min (length ul) (k * batchSize)) (length ul))"
proof (induction k arbitrary: st)
  case 0
  then show ?case by (auto simp: init_state_def)
next
  case (Suc k)
  let ?n = "length ul"
  from before_batch_Suc_Inr [OF Suc.prems(1)] obtain st0 where
    b: "before_batch en ch ul k = Inr st0" and s: "batch_step en ch ul (k * batchSize) st0 = (None, st)"
    by blast
  from Suc.prems(2) have lt: "k * batchSize < ?n" by (simp add: batch_exists_iff)
  then have n0: "0 < ?n" by linarith
  from Suc.prems(2) have "k \<le> batch_count ul" by simp
  from Suc.IH [OF b this] have srt: "sorted (progress_updates st0)"
    and bnd: "\<forall>x \<in> set (progress_updates st0). x \<le> progress_of (min ?n (k * batchSize)) ?n"
    by simp_all
  have m: "progress_of (min ?n (k * batchSize)) ?n \<le> progress_of (min ?n (k * batchSize + batchSize)) ?n"
    by (rule progress_of_mono) (use n0 in simp_all)
  have e: "Suc k * batchSize = k * batchSize + batchSize" by simp
  from batch_step_None [OF s] show ?case
  proof
    assume "\<exists>err. translateBatch en k (build_prompt ch (batch_of ul k)) = Inl err \<and>
            cache st = mark_empty (array_prototype_names en) (batch_of ul k) (cache st0) \<and>
            progress_updates st = progress_updates st0"
    then have "progress_updates st = progress_updates st0" by blast
    with srt bnd m show ?thesis unfolding e by fastforce
  next
    assume "\<exists>xs. translateBatch en k (build_prompt ch (batch_of ul k)) = Inr xs \<and>
            update_cache (array_prototype_names en) xs (cache st0) = Inr (cache st) \<and>
            progress_updates st = progress_updates st0 @
              [progress_of (min ?n (k * batchSize + batchSize)) ?n]"
    then have "progress_updates st = progress_updates st0 @
              [progress_of (min ?n (k * batchSize + batchSize)) ?n]" by blast
    with srt bnd m show ?thesis unfolding e by (fastforce simp: sorted_append)
  qed
qed

lemma loop_progress_sorted:
  assumes "translate_loop en ch ul 0 init_state = (r, st)"
  shows "sorted (progress_updates st)"
proof -
  have b0: "before_batch en ch ul 0 = Inr init_state" by simp
  from loop_result [of 0 ul en ch init_state r st] b0 assms
  consider "r = None" "before_batch en ch ul (batch_count ul) = Inr st"
    | e j stj where "r = Some e" "j < batch_count ul" "before_batch en ch ul j = Inr stj"
        "batch_step en ch ul (j * batchSize) stj = (Some e, st)"
    by auto
  then show ?thesis
  proof cases
    case 1
    from before_batch_progress [OF 1(2)] show ?thesis by simp
  next
    case 2
    from before_batch_progress [OF 2(3)] 2(2) have "sorted (progress_updates stj)" by simp
    with batch_step_Some [OF 2(4)] show ?thesis by simp
  qed
qed

lemma loop_final_hundred:
  assumes loop: "translate_loop en ch ul 0 init_state = (None, st)"
    and ne: "ul \<noteq> []"
    and ok: "translateBatch en (batch_count ul - 1)
               (build_prompt ch (batch_of ul (batch_count ul - 1))) = Inr xs"
  shows "progress_updates st \<noteq> [] \<and> last (progress_updates st) = 100"
proof -
  let ?n = "length ul"
  from ne have n0: "0 < ?n" by simp
  then have "0 * batchSize < ?n" by simp
  then have "Suc 0 \<le> batch_count ul" by (simp only: batch_exists_iff)
  then obtain kl where kl: "batch_count ul = Suc kl" by (cases "batch_count ul") simp_all
  from loop_complete0 [OF loop] kl have b: "before_batch en ch ul (Suc kl) = Inr st" by simp
  from before_batch_Suc_Inr [OF b] obtain st0 where
    s: "batch_step en ch ul (kl * batchSize) st0 = (None, st)" by blast
  from ok kl have ok': "translateBatch en kl (build_prompt ch (batch_of ul kl)) = Inr xs" by simp
  from batch_step_None [OF s] ok'
  have pu: "progress_updates st = progress_updates st0 @
      [progress_of (min ?n (kl * batchSize + batchSize)) ?n]" by auto
  have "?n \<le> batch_count ul * batchSize" by (rule batch_count_covers)
  with kl have "min ?n (kl * batchSize + batchSize) = ?n" by simp
  with pu progress_of_full [OF n0] show ?thesis by simp
qed

lemma processFile_progress:
  "out_progress (processFile en fileUrl jobId) =
     (case prepare en fileUrl jobId of
        Inl x \<Rightarrow> []
      | Inr p \<Rightarrow> progress_updates (snd (translate_loop en (p_customHeader p) (p_unique p) 0 init_state)))"
  by (simp add: processFile_def rejected_def init_state_def Let_def
      split: sum.splits prod.splits option.splits)

text \<open>
  The progress values reported in a run are non-decreasing. If there is at least one
  unique string, the loop completes and the translation of the final batch succeeds, the
  last value reported is 100.
\<close>

lemma progress_sorted: "sorted (out_progress (processFile en fileUrl jobId))"
proof (cases "prepare en fileUrl jobId")
  case (Inl x)
  then show ?thesis by (simp add: processFile_progress)
next
  case (Inr p)
  obtain r st where l: "translate_loop en (p_customHeader p) (p_unique p) 0 init_state = (r, st)"
    by (cases "translate_loop en (p_customHeader p) (p_unique p) 0 init_state")
  from loop_progress_sorted [OF l] Inr l show ?thesis by (simp add: processFile_progress)
qed

lemma progress_reaches_hundred:
  assumes p: "prepare en fileUrl jobId = Inr p" and ne: "p_unique p \<noteq> []"
    and l: "translate_loop en (p_customHeader p) (p_unique p) 0 init_state = (None, st)"
    and ok: "translateBatch en (batch_count (p_unique p) - 1)
         (build_prompt (p_customHeader p) (batch_of (p_unique p) (batch_count (p_unique p) - 1))) = Inr xs"
  shows "out_progress (processFile en fileUrl jobId) \<noteq> [] \<and>
         last (out_progress (processFile en fileUrl jobId)) = 100"
  using loop_final_hundred [OF l ne ok] p l by (simp add: processFile_progress)

text \<open>
  Claim C2. The claim fails in the code when the translation of a batch fails: the
  \<^verbatim>\<open>catch\<close> branch ends with \<^verbatim>\<open>continue\<close>, which skips the progress update that follows the
  cache update. With the sample sheet and a model whose call fails, the unique strings are
  \<^verbatim>\<open>Hello\<close> and \<^verbatim>\<open>Bye\<close>, one request is sent for the only batch, the job completes and no
  progress value is reported.
\<close>

theorem C2_failed_batch_reports_nothing:
  "unique_of failing_env ''gs://bucket/in.xlsx'' ''job-1'' = Some [''Hello'', ''Bye'']
   \<and> out_requests (processFile failing_env ''gs://bucket/in.xlsx'' ''job-1'') = [sample_prompt]
   \<and> out_progress (processFile failing_env ''gs://bucket/in.xlsx'' ''job-1'') = []
   \<and> final_status failing_env ''gs://bucket/in.xlsx'' ''job-1'' = ''completed''"
  by code_simp

text \<open>
  Claim C3. The claim fails in the code when the translation of the final batch fails:
  no value is reported after it. With the sample sheet, which has unique strings, and a
  model whose call fails, the job ends with status \<^verbatim>\<open>completed\<close> and the value 100 is not
  among the progress values reported.
\<close>

theorem C3_completed_without_hundred:
  "unique_of failing_env ''gs://bucket/in.xlsx'' ''job-1'' = Some [''Hello'', ''Bye'']
   \<and> final_status failing_env ''gs://bucket/in.xlsx'' ''job-1'' = ''completed''
   \<and> 100 \<notin> set (out_progress (processFile failing_env ''gs://bucket/in.xlsx'' ''job-1''))"
  by code_simp

section \<open>Strings that name inherited properties\<close>

text \<open>
  Claim C4. The claim fails in the code for the string \<^verbatim>\<open>__proto__\<close>: on the plain object
  that is the cache, \<^verbatim>\<open>translationCache["__proto__"] = ""\<close> assigns nothing. With a sheet
  whose source strings are \<^verbatim>\<open>__proto__\<close>, \<^verbatim>\<open>toString\<close> and \<^verbatim>\<open>Hello\<close> and a model whose call fails,
  the loop leaves the cache without an entry for \<^verbatim>\<open>__proto__\<close> (the other two strings get
  the empty string), the writer reads \<^verbatim>\<open>Object.prototype\<close> for it and writes that into the
  target cell of its row, and the job completes.
\<close>

theorem C4_proto_string_not_marked:
  "unique_of proto_fail_env ''gs://bucket/in.xlsx'' ''job-1'' = Some [''__proto__'', ''toString'', ''Hello'']
   \<and> fst (translate_loop proto_fail_env [] [''__proto__'', ''toString'', ''Hello''] 0 init_state) = None
   \<and> own (cache (snd (translate_loop proto_fail_env [] [''__proto__'', ''toString'', ''Hello''] 0
        init_state))) ''__proto__'' = None
   \<and> own (cache (snd (translate_loop proto_fail_env [] [''__proto__'', ''toString'', ''Hello''] 0
        init_state))) ''toString'' = Some (JStr [])
   \<and> own (cache (snd (translate_loop proto_fail_env [] [''__proto__'', ''toString'', ''Hello''] 0
        init_state))) ''Hello'' = Some (JStr [])
   \<and> cell_after (processFile proto_fail_env ''gs://bucket/in.xlsx'' ''job-1'') ''Sheet1'' (3, 1) =
        Some \<lparr>t = ''s'', v = JNative ''Object.prototype''\<rparr>
   \<and> cell_after (processFile proto_fail_env ''gs://bucket/in.xlsx'' ''job-1'') ''Sheet1'' (3, 2) =
        Some \<lparr>t = ''s'', v = JStr []\<rparr>
   \<and> cell_after (processFile proto_fail_env ''gs://bucket/in.xlsx'' ''job-1'') ''Sheet1'' (3, 3) =
        Some \<lparr>t = ''s'', v = JStr []\<rparr>
   \<and> final_status proto_fail_env ''gs://bucket/in.xlsx'' ''job-1'' = ''completed''"
  by code_simp

text \<open>
  Claim C8. The claim fails in the code for a string that names a property the cache
  object inherits and for which the cache has no entry. With the same sheet and a model
  that answers with the empty array, the translation of the only batch succeeds and
  stores nothing; for the row of \<^verbatim>\<open>toString\<close> the writer reads
  \<^verbatim>\<open>translationCache["toString"] || ""\<close>, which is the method \<^verbatim>\<open>Object.prototype.toString\<close>,
  and writes that into the target cell, where the row of \<^verbatim>\<open>Hello\<close>, also without an entry,
  gets the empty string. The job completes.
\<close>

theorem C8_inherited_name_reaches_cell:
  "unique_of proto_empty_env ''gs://bucket/in.xlsx'' ''job-1'' = Some [''__proto__'', ''toString'', ''Hello'']
   \<and> fst (translate_loop proto_empty_env [] [''__proto__'', ''toString'', ''Hello''] 0 init_state) = None
   \<and> own (cache (snd (translate_loop proto_empty_env [] [''__proto__'', ''toString'', ''Hello''] 0
        init_state))) ''toString'' = None
   \<and> own (cache (snd (translate_loop proto_empty_env [] [''__proto__'', ''toString'', ''Hello''] 0
        init_state))) ''Hello'' = None
   \<and> cell_after (processFile proto_empty_env ''gs://bucket/in.xlsx'' ''job-1'') ''Sheet1'' (3, 2) =
        Some \<lparr>t = ''s'', v = JNative ''Object.prototype.toString''\<rparr>
   \<and> cell_after (processFile proto_empty_env ''gs://bucket/in.xlsx'' ''job-1'') ''Sheet1'' (3, 3) =
        Some \<lparr>t = ''s'', v = JStr []\<rparr>
   \<and> final_status proto_empty_env ''gs://bucket/in.xlsx'' ''job-1'' = ''completed''"
  by code_simp

section \<open>Column resolution: properties\<close>

lemma find_hit: "find P xs \<noteq> None \<longleftrightarrow> (\<exists>x \<in> set xs. P x)"
  by (auto simp: find_None_iff)

lemma pass1_char:
  "pass1 hs (map norm cands) =
     (case find (\<lambda>x. \<exists>h \<in> set hs. h_lower h = toLowerCase x) (strs cands) of
        Some x \<Rightarrow> map_option h_col (find (\<lambda>h. h_lower h = toLowerCase x) hs)
      | None \<Rightarrow> None)"
proof (induction cands)
  case Nil
  show ?case by simp
next
  case (Cons c cs)
  show ?case
  proof (cases c)
    case (CStr x)
    show ?thesis
    proof (cases "find (\<lambda>h. h_lower h = toLowerCase x) hs")
      case None
      then have "\<not> (\<exists>h \<in> set hs. h_lower h = toLowerCase x)" by (simp add: find_None_iff)
      with None CStr Cons show ?thesis by simp
    next
      case (Some hit)
      then have "\<exists>h \<in> set hs. h_lower h = toLowerCase x"
        using find_hit [of "\<lambda>h. h_lower h = toLowerCase x" hs] by simp
      with Some CStr show ?thesis by simp
    qed
  next
    case (CRe r)
    with Cons show ?thesis by simp
  qed
qed

lemma pass2_char:
  "pass2 hs (map norm cands) =
     (case find (\<lambda>r. \<exists>h \<in> set hs. r (h_text h)) (res cands) of
        Some r \<Rightarrow> map_option h_col (find (\<lambda>h. r (h_text h)) hs)
      | None \<Rightarrow> None)"
proof (induction cands)
  case Nil
  show ?case by simp
next
  case (Cons c cs)
  show ?case
  proof (cases c)
    case (CRe r)
    show ?thesis
    proof (cases "find (\<lambda>h. r (h_text h)) hs")
      case None
      then have "\<not> (\<exists>h \<in> set hs. r (h_text h))" by (simp add: find_None_iff)
      with None CRe Cons show ?thesis by simp
    next
      case (Some hit)
      then have "\<exists>h \<in> set hs. r (h_text h)"
        using find_hit [of "\<lambda>h. r (h_text h)" hs] by simp
      with Some CRe show ?thesis by simp
    qed
  next
    case (CStr x)
    with Cons show ?thesis by simp
  qed
qed

lemma pass1_None_iff:
  "pass1 hs (map norm cands) = None \<longleftrightarrow>
     find (\<lambda>x. \<exists>h \<in> set hs. h_lower h = toLowerCase x) (strs cands) = None"
proof (cases "find (\<lambda>x. \<exists>h \<in> set hs. h_lower h = toLowerCase x) (strs cands)")
  case None
  then show ?thesis by (simp add: pass1_char)
next
  case (Some x)
  then have "\<exists>h \<in> set hs. h_lower h = toLowerCase x" by (auto dest: find_Some_iff [THEN iffD1])
  then have "find (\<lambda>h. h_lower h = toLowerCase x) hs \<noteq> None"
    using find_hit [of "\<lambda>h. h_lower h = toLowerCase x" hs] by blast
  with Some show ?thesis by (auto simp: pass1_char)
qed

lemma header_at_set:
  "h \<in> set (header_at ws r c) \<longleftrightarrow>
     (\<exists>cl s. getCell ws c r = Some cl \<and> v cl = JStr s \<and> trim s \<noteq> [] \<and>
        h = \<lparr>h_text = trim s, h_lower = toLowerCase (trim s), h_col = c\<rparr>)"
  by (cases "getCell ws c r"; cases "v (the (getCell ws c r))")
     (auto simp: header_at_def Let_def)

lemma header_at_col: "h \<in> set (header_at ws r c) \<Longrightarrow> h_col h = c"
  by (auto simp: header_at_set)

lemma header_at_length: "length (header_at ws r c) \<le> 1"
  by (cases "getCell ws c r"; cases "v (the (getCell ws c r))")
     (auto simp: header_at_def Let_def)

lemma headers_cols_sorted:
  "sorted_wrt (<) (map h_col (concat (map (header_at ws r) [a..<b])))"
proof (induction b)
  case 0
  show ?case by simp
next
  case (Suc b)
  show ?case
  proof (cases "a \<le> b")
    case False
    then show ?thesis by simp
  next
    case True
    have one: "sorted_wrt (<) (map h_col (header_at ws r b))"
      using header_at_length [of ws r b]
      by (cases "header_at ws r b") (auto simp: le_Suc_eq)
    have cross: "\<forall>x \<in> set (concat (map (header_at ws r) [a..<b])). \<forall>y \<in> set (header_at ws r b).
        h_col x < h_col y"
      by (auto dest!: header_at_col)
    from True have "[a..<Suc b] = [a..<b] @ [b]" by simp
    with Suc one cross show ?thesis by (simp add: sorted_wrt_append)
  qed
qed

lemma collect_headers_set:
  "h \<in> set (collect_headers ws rg) \<longleftrightarrow>
     (\<exists>c cl s. s_c rg \<le> c \<and> c \<le> e_c rg \<and> getCell ws c (s_r rg) = Some cl \<and> v cl = JStr s \<and>
        trim s \<noteq> [] \<and> h = \<lparr>h_text = trim s, h_lower = toLowerCase (trim s), h_col = c\<rparr>)"
  unfolding collect_headers_def by (auto simp: header_at_set) 

lemma findColumnByHeader_char:
  assumes "ref ws = Some rg"
  shows "findColumnByHeader ws cands =
     (case find (\<lambda>x. \<exists>h \<in> set (collect_headers ws rg). h_lower h = toLowerCase x) (strs cands) of
        Some x \<Rightarrow> map_option h_col (find (\<lambda>h. h_lower h = toLowerCase x) (collect_headers ws rg))
      | None \<Rightarrow>
          (case find (\<lambda>r. \<exists>h \<in> set (collect_headers ws rg). r (h_text h)) (res cands) of
             Some r \<Rightarrow> map_option h_col (find (\<lambda>h. r (h_text h)) (collect_headers ws rg))
           | None \<Rightarrow> None))"
proof (cases "pass1 (collect_headers ws rg) (map norm cands)")
  case None
  then have "find (\<lambda>x. \<exists>h \<in> set (collect_headers ws rg). h_lower h = toLowerCase x) (strs cands) = None"
    by (simp only: pass1_None_iff)
  with None assms show ?thesis
    by (simp add: findColumnByHeader_def Let_def pass2_char)
next
  case (Some c)
  then have "find (\<lambda>x. \<exists>h \<in> set (collect_headers ws rg). h_lower h = toLowerCase x) (strs cands) \<noteq> None"
    using pass1_None_iff [of "collect_headers ws rg" cands] by simp
  then obtain x where
    x: "find (\<lambda>x. \<exists>h \<in> set (collect_headers ws rg). h_lower h = toLowerCase x) (strs cands) = Some x"
    by blast
  from Some have "findColumnByHeader ws cands = pass1 (collect_headers ws rg) (map norm cands)"
    using assms by (simp add: findColumnByHeader_def Let_def)
  also have "\<dots> = map_option h_col (find (\<lambda>h. h_lower h = toLowerCase x) (collect_headers ws rg))"
    using x by (simp add: pass1_char)
  finally show ?thesis using x by simp
qed

text \<open>Letter case, white space and the pattern on sample strings.\<close>

lemma toLowerCase_sample:
  "toLowerCase (''NORSK '' @ [CHR 0xC5, CHR 0xD7, CHR 0xDF]) = ''norsk '' @ [CHR 0xE5, CHR 0xD7, CHR 0xDF]"
  by code_simp

lemma trim_sample:
  "trim ([CHR 0xA0, CHR 0x09] @ ''Norsk  nb '' @ [CHR 0x0A, CHR 0xA0]) = ''Norsk  nb''"
  "trim ''   '' = []"
  by code_simp+

lemma re_translated_string_sample:
  "re_translated_string ''Translated string (nb)''"
  "re_translated_string ''TRANSLATED STRING''"
  "\<not> re_translated_string ''Translated strings''"
  "\<not> re_translated_string '' Translated string''"
  "\<not> re_translated_string ''Translated  string''"
  by code_simp+

text \<open>
  Claim C5, as amended. Column resolution looks at the header cells, left to right, that
  hold a string which is not blank after trimming. It returns the column of the leftmost
  header whose trimmed text equals, ignoring case, the first exact string candidate (in
  priority order) that matches any header. Only if no exact candidate matches does it
  try the pattern candidates, in priority order, against the trimmed header text in
  its original letter case. If nothing matches, or the sheet declares no range, the
  result is the fixed default: index 1 for the source, index 3 for the target. So
  resolution never fails.
\<close>

theorem C5_column_resolution:
  "(ref ws = None \<longrightarrow> findColumnByHeader ws cands = None)
   \<and> (\<forall>rg. ref ws = Some rg \<longrightarrow>
         findColumnByHeader ws cands =
           (case find (\<lambda>x. \<exists>h \<in> set (collect_headers ws rg). h_lower h = toLowerCase x) (strs cands) of
              Some x \<Rightarrow> map_option h_col (find (\<lambda>h. h_lower h = toLowerCase x) (collect_headers ws rg))
            | None \<Rightarrow>
                (case find (\<lambda>r. \<exists>h \<in> set (collect_headers ws rg). r (h_text h)) (res cands) of
                   Some r \<Rightarrow> map_option h_col (find (\<lambda>h. r (h_text h)) (collect_headers ws rg))
                 | None \<Rightarrow> None))
         \<and> (\<forall>h. h \<in> set (collect_headers ws rg) \<longleftrightarrow>
                (\<exists>c cl s. s_c rg \<le> c \<and> c \<le> e_c rg \<and> getCell ws c (s_r rg) = Some cl \<and>
                   v cl = JStr s \<and> trim s \<noteq> [] \<and>
                   h = \<lparr>h_text = trim s, h_lower = toLowerCase (trim s), h_col = c\<rparr>))
         \<and> sorted_wrt (<) (map h_col (collect_headers ws rg)))
   \<and> sourceColIndex (resolveColumnsForSingleSheet ws) =
        (case findColumnByHeader ws source_candidates of Some c \<Rightarrow> c | None \<Rightarrow> 1)
   \<and> targetColIndex (resolveColumnsForSingleSheet ws) =
        (case findColumnByHeader ws target_candidates of Some c \<Rightarrow> c | None \<Rightarrow> 3)"
proof -
  have a: "ref ws = None \<longrightarrow> findColumnByHeader ws cands = None"
    by (simp add: findColumnByHeader_def)
  have s: "sorted_wrt (<) (map h_col (collect_headers ws rg))" for rg
    unfolding collect_headers_def by (rule headers_cols_sorted)
  have r: "sourceColIndex (resolveColumnsForSingleSheet ws) =
        (case findColumnByHeader ws source_candidates of Some c \<Rightarrow> c | None \<Rightarrow> 1)"
    "targetColIndex (resolveColumnsForSingleSheet ws) =
        (case findColumnByHeader ws target_candidates of Some c \<Rightarrow> c | None \<Rightarrow> 3)"
    by (simp_all add: resolveColumnsForSingleSheet_def)
  from a findColumnByHeader_char [of ws _ cands] collect_headers_set [of _ ws] s r
  show ?thesis by (intro conjI allI impI) blast+
qed

theorem C5_column_resolution_witness:
  "findColumnByHeader padded_sheet target_candidates = Some 2
   \<and> targetColIndex (resolveColumnsForSingleSheet padded_sheet) = 2
   \<and> sourceColIndex (resolveColumnsForSingleSheet padded_sheet) = 1
   \<and> sourceColIndex (resolveColumnsForSingleSheet nbsp_sheet) = 2
   \<and> targetColIndex (resolveColumnsForSingleSheet nbsp_sheet) = 4
   \<and> collect_headers nbsp_sheet \<lparr>s_c = 0, s_r = 0, e_c = 4, e_r = 1\<rparr> =
        [\<lparr>h_text = ''TEXT'', h_lower = ''text'', h_col = 2\<rparr>,
         \<lparr>h_text = ''Translation note'', h_lower = ''translation note'', h_col = 3\<rparr>,
         \<lparr>h_text = ''Norsk'', h_lower = ''norsk'', h_col = 4\<rparr>]
   \<and> sourceColIndex (resolveColumnsForSingleSheet no_range_sheet) = 1
   \<and> targetColIndex (resolveColumnsForSingleSheet no_range_sheet) = 3"
proof -
  let ?rg = "\<lparr>s_c = 0, s_r = 0, e_c = 2, e_r = 1\<rparr>"
  let ?ng = "\<lparr>s_c = 0, s_r = 0, e_c = 4, e_r = 1\<rparr>"
  note th = C5_column_resolution [of padded_sheet target_candidates]
  have rf: "ref padded_sheet = Some ?rg" by (simp add: padded_sheet_def)
  have ev: "(case find (\<lambda>x. \<exists>h \<in> set (collect_headers padded_sheet ?rg). h_lower h = toLowerCase x)
                (strs target_candidates) of
              Some x \<Rightarrow> map_option h_col (find (\<lambda>h. h_lower h = toLowerCase x) (collect_headers padded_sheet ?rg))
            | None \<Rightarrow>
                (case find (\<lambda>r. \<exists>h \<in> set (collect_headers padded_sheet ?rg). r (h_text h))
                        (res target_candidates) of
                   Some r \<Rightarrow> map_option h_col (find (\<lambda>h. r (h_text h)) (collect_headers padded_sheet ?rg))
                 | None \<Rightarrow> None)) = Some 2"
    by code_simp
  from th rf have "findColumnByHeader padded_sheet target_candidates =
      (case find (\<lambda>x. \<exists>h \<in> set (collect_headers padded_sheet ?rg). h_lower h = toLowerCase x)
                (strs target_candidates) of
              Some x \<Rightarrow> map_option h_col (find (\<lambda>h. h_lower h = toLowerCase x) (collect_headers padded_sheet ?rg))
            | None \<Rightarrow>
                (case find (\<lambda>r. \<exists>h \<in> set (collect_headers padded_sheet ?rg). r (h_text h))
                        (res target_candidates) of
                   Some r \<Rightarrow> map_option h_col (find (\<lambda>h. r (h_text h)) (collect_headers padded_sheet ?rg))
                 | None \<Rightarrow> None))"
    by blast
  then have f: "findColumnByHeader padded_sheet target_candidates = Some 2"
    using ev by (rule trans)
  have sc: "findColumnByHeader padded_sheet source_candidates = Some 1" by code_simp
  from th f sc have padded: "findColumnByHeader padded_sheet target_candidates = Some 2
      \<and> targetColIndex (resolveColumnsForSingleSheet padded_sheet) = 2
      \<and> sourceColIndex (resolveColumnsForSingleSheet padded_sheet) = 1" by simp
  note tn = C5_column_resolution [of nbsp_sheet source_candidates]
  have ns: "findColumnByHeader nbsp_sheet source_candidates = Some 2" by code_simp
  have nt: "findColumnByHeader nbsp_sheet target_candidates = Some 4" by code_simp
  have nh: "collect_headers nbsp_sheet ?ng =
        [\<lparr>h_text = ''TEXT'', h_lower = ''text'', h_col = 2\<rparr>,
         \<lparr>h_text = ''Translation note'', h_lower = ''translation note'', h_col = 3\<rparr>,
         \<lparr>h_text = ''Norsk'', h_lower = ''norsk'', h_col = 4\<rparr>]"
    by code_simp
  from tn ns nt have nbsp: "sourceColIndex (resolveColumnsForSingleSheet nbsp_sheet) = 2
      \<and> targetColIndex (resolveColumnsForSingleSheet nbsp_sheet) = 4" by simp
  note tr = C5_column_resolution [of no_range_sheet source_candidates]
  have nr: "ref no_range_sheet = None" by (simp add: no_range_sheet_def)
  from tr nr have "findColumnByHeader no_range_sheet source_candidates = None" by blast
  moreover from C5_column_resolution [of no_range_sheet target_candidates] nr
  have "findColumnByHeader no_range_sheet target_candidates = None" by blast
  ultimately have none: "sourceColIndex (resolveColumnsForSingleSheet no_range_sheet) = 1
      \<and> targetColIndex (resolveColumnsForSingleSheet no_range_sheet) = 3"
    using tr by simp
  from padded nbsp nh none show ?thesis by simp
qed

text \<open>
  The claim as stated fails: on a sheet whose third header is \<^verbatim>\<open>Translated string (nb)\<close>
  preceded by two blanks, the code finds the target in column 2 (the pattern is tested on
  the trimmed text), where testing the raw text gives the default 3.
\<close>

theorem C5_counterexample:
  "targetColIndex (resolveColumnsForSingleSheet padded_sheet) = 2
   \<and> targetColIndex (claimed_resolveColumns padded_sheet) = 3"
  by code_simp
end
